theory Spec2Isabelle
  imports Main "HOL-Library.Sublist" "HOL-Library.AList"
begin

section \<open>Strings as Python sees them\<close>

text \<open>
  The generator (\<^verbatim>\<open>src/ghost_static_generator.py\<close>) works on Python \<^verbatim>\<open>str\<close> values.
  They are modelled as \<^typ>\<open>string\<close>; the character tests below are the ASCII ones, so the
  model speaks about ASCII text.
\<close>

definition ord :: "char \<Rightarrow> nat" where
  "ord c = of_char c"

definition is_alpha :: "char \<Rightarrow> bool" where
  "is_alpha c = ((65 \<le> ord c \<and> ord c \<le> 90) \<or> (97 \<le> ord c \<and> ord c \<le> 122))"

definition is_digit :: "char \<Rightarrow> bool" where
  "is_digit c = (48 \<le> ord c \<and> ord c \<le> 57)"

definition lower_char :: "char \<Rightarrow> char" where
  "lower_char c = (if 65 \<le> ord c \<and> ord c \<le> 90 then char_of (ord c + 32) else c)"

text \<open>\<^verbatim>\<open>str.lower()\<close>\<close>

definition lower :: "string \<Rightarrow> string" where
  "lower s = map lower_char s"

text \<open>The characters \<^verbatim>\<open>str.split()\<close> and \<^verbatim>\<open>str.strip()\<close> treat as white space.\<close>

definition is_space :: "char \<Rightarrow> bool" where
  "is_space c = ((9 \<le> ord c \<and> ord c \<le> 13) \<or> (28 \<le> ord c \<and> ord c \<le> 32))"

text \<open>\<^verbatim>\<open>s.lstrip('/')\<close>\<close>

definition lstrip_slash :: "string \<Rightarrow> string" where
  "lstrip_slash s = dropWhile (\<lambda>c. c = CHR ''/'') s"

text \<open>\<^verbatim>\<open>s.strip()\<close>\<close>

definition strip :: "string \<Rightarrow> string" where
  "strip s = rev (dropWhile is_space (rev (dropWhile is_space s)))"

text \<open>\<^verbatim>\<open>s.startswith(p)\<close> and \<^verbatim>\<open>s.endswith(p)\<close>\<close>

definition startswith :: "string \<Rightarrow> string \<Rightarrow> bool" where
  "startswith s p = (take (length p) s = p)"

definition endswith :: "string \<Rightarrow> string \<Rightarrow> bool" where
  "endswith s p = (length p \<le> length s \<and> drop (length s - length p) s = p)"

text \<open>\<^verbatim>\<open>p in s\<close> on strings: \<open>p\<close> occurs in \<open>s\<close> as a contiguous block.\<close>

fun contains :: "string \<Rightarrow> string \<Rightarrow> bool" where
  "contains [] p = (p = [])"
| "contains (c # s) p = (startswith (c # s) p \<or> contains s p)"

text \<open>\<^verbatim>\<open>s.split(sep)\<close> for a one-character separator: never an empty list.\<close>

fun split_on :: "char \<Rightarrow> string \<Rightarrow> string list" where
  "split_on sep [] = [[]]"
| "split_on sep (c # s) =
     (if c = sep then [] # split_on sep s
      else (case split_on sep s of
              [] \<Rightarrow> [[c]]
            | w # ws \<Rightarrow> (c # w) # ws))"

text \<open>\<^verbatim>\<open>s.split()\<close>: the maximal runs of characters that are not white space.\<close>

fun split_ws_acc :: "string \<Rightarrow> string \<Rightarrow> string list" where
  "split_ws_acc w [] = (if w = [] then [] else [rev w])"
| "split_ws_acc w (c # s) =
     (if is_space c then (if w = [] then split_ws_acc [] s else rev w # split_ws_acc [] s)
      else split_ws_acc (c # w) s)"

definition split_ws :: "string \<Rightarrow> string list" where
  "split_ws s = split_ws_acc [] s"

text \<open>\<^verbatim>\<open>sep.join(xs)\<close>\<close>

fun join :: "string \<Rightarrow> string list \<Rightarrow> string" where
  "join sep [] = []"
| "join sep [x] = x"
| "join sep (x # y # ys) = x @ sep @ join sep (y # ys)"

text \<open>
  \<^verbatim>\<open>s.replace(old, new)\<close>: the occurrences of \<open>old\<close> are found from left to right and do
  not overlap. With an empty \<open>old\<close> Python puts \<open>new\<close> before every character and at the
  end.
\<close>

fun replace_scan :: "string \<Rightarrow> string \<Rightarrow> nat \<Rightarrow> string \<Rightarrow> string" where
  "replace_scan old new k [] = []"
| "replace_scan old new k (c # s) =
     (if 0 < k then replace_scan old new (k - 1) s
      else if startswith (c # s) old then new @ replace_scan old new (length old - 1) s
      else c # replace_scan old new 0 s)"

definition replace :: "string \<Rightarrow> string \<Rightarrow> string \<Rightarrow> string" where
  "replace old new s =
     (if old = [] then new @ concat (map (\<lambda>c. c # new) s)
      else replace_scan old new 0 s)"

section \<open>Library functions the generator calls\<close>

subsection \<open>\<^verbatim>\<open>os.path\<close> (POSIX)\<close>

text \<open>\<^verbatim>\<open>os.path.join(a, b)\<close>\<close>

definition path_join :: "string \<Rightarrow> string \<Rightarrow> string" where
  "path_join a b =
     (if startswith b ''/'' then b
      else if a = [] \<or> endswith a ''/'' then a @ b
      else a @ ''/'' @ b)"

text \<open>
  \<^verbatim>\<open>os.path.splitext(p)\<close>: the extension starts at the last dot of the last path
  component, unless that component has nothing but dots before it.
\<close>

definition rfind :: "char \<Rightarrow> string \<Rightarrow> nat option" where
  "rfind c s =
     (if c \<in> set s then Some (length s - 1 - length (takeWhile (\<lambda>d. d \<noteq> c) (rev s)))
      else None)"

definition splitext :: "string \<Rightarrow> string \<times> string" where
  "splitext p =
     (case rfind CHR ''.'' p of
        None \<Rightarrow> (p, [])
      | Some dotIndex \<Rightarrow>
          (let filenameIndex = (case rfind CHR ''/'' p of None \<Rightarrow> 0 | Some i \<Rightarrow> i + 1)
           in if filenameIndex \<le> dotIndex
                 \<and> (\<exists>c \<in> set (drop filenameIndex (take dotIndex p)). c \<noteq> CHR ''.'')
              then (take dotIndex p, drop dotIndex p)
              else (p, [])))"

subsection \<open>\<^verbatim>\<open>urllib.parse.urlparse\<close>\<close>

text \<open>
  The six components of a parsed URL, as \<^verbatim>\<open>urlparse\<close> returns them. The model follows
  CPython 3.12's \<^verbatim>\<open>urlsplit\<close> and \<^verbatim>\<open>urlparse\<close> on ASCII input: leading C0 control
  characters and spaces are stripped, tabs and line breaks are removed, the scheme is
  split off at the first colon when everything before it is a scheme character, the
  authority is what follows \<^verbatim>\<open>//\<close> up to the next \<^verbatim>\<open>/\<close>, \<^verbatim>\<open>?\<close> or \<^verbatim>\<open>#\<close>, then the
  fragment, the query and the parameters of the last path segment are split off.
  An authority with one square bracket and not the other raises \<^verbatim>\<open>ValueError\<close>.
  (For an authority with both brackets CPython also checks that the bracketed host is an
  IP literal; the theorems below say nothing about such URLs.)
\<close>

datatype exn =
    RequestException
  | ValueError
  | KeyError
  | RecursionError
  | OSError
  | UnicodeDecodeError

record url_parts =
  scheme :: string
  netloc :: string
  path :: string
  params :: string
  query :: string
  fragment :: string

definition scheme_char :: "char \<Rightarrow> bool" where
  "scheme_char c = (is_alpha c \<or> is_digit c \<or> c = CHR ''+'' \<or> c = CHR ''-'' \<or> c = CHR ''.'')"

definition unsafe_byte :: "char \<Rightarrow> bool" where
  "unsafe_byte c = (ord c = 9 \<or> ord c = 10 \<or> ord c = 13)"

definition sanitize :: "string \<Rightarrow> string" where
  "sanitize url = filter (\<lambda>c. \<not> unsafe_byte c) (dropWhile (\<lambda>c. ord c \<le> 32) url)"

definition split_scheme :: "string \<Rightarrow> string \<times> string" where
  "split_scheme url =
     (let pre = takeWhile (\<lambda>c. c \<noteq> CHR '':'') url
      in if length pre < length url \<and> pre \<noteq> [] \<and> is_alpha (hd pre) \<and> list_all scheme_char pre
         then (lower pre, drop (length pre + 1) url)
         else ([], url))"

definition netloc_delim :: "char \<Rightarrow> bool" where
  "netloc_delim c = (c = CHR ''/'' \<or> c = CHR ''?'' \<or> c = CHR ''#'')"

definition split_netloc :: "string \<Rightarrow> string \<times> string" where
  "split_netloc url =
     (if take 2 url = ''//''
      then (takeWhile (\<lambda>c. \<not> netloc_delim c) (drop 2 url),
            dropWhile (\<lambda>c. \<not> netloc_delim c) (drop 2 url))
      else ([], url))"

text \<open>\<^verbatim>\<open>a, b = s.split(c, 1)\<close> when \<open>c\<close> occurs in \<open>s\<close>; \<open>(s, '')\<close> otherwise.\<close>

definition cut_at :: "char \<Rightarrow> string \<Rightarrow> string \<times> string" where
  "cut_at c s = (takeWhile (\<lambda>d. d \<noteq> c) s, drop 1 (dropWhile (\<lambda>d. d \<noteq> c) s))"

definition uses_params :: "string list" where
  "uses_params = ['''', ''ftp'', ''hdl'', ''prospero'', ''http'', ''imap'', ''https'', ''shttp'',
                  ''rtsp'', ''rtspu'', ''sip'', ''sips'', ''mms'', ''sftp'', ''tel'']"

text \<open>\<^verbatim>\<open>_splitparams\<close>: the parameters start at the first semicolon of the last segment.\<close>

definition split_params :: "string \<Rightarrow> string \<times> string" where
  "split_params url =
     (let start = (case rfind CHR ''/'' url of None \<Rightarrow> 0 | Some i \<Rightarrow> i);
          hd_part = take start url;
          last_part = drop start url
      in if CHR '';'' \<in> set last_part
         then (hd_part @ takeWhile (\<lambda>c. c \<noteq> CHR '';'') last_part,
               drop 1 (dropWhile (\<lambda>c. c \<noteq> CHR '';'') last_part))
         else (url, []))"

definition urlparse :: "string \<Rightarrow> exn + url_parts" where
  "urlparse url0 =
     (let (sch, u1) = split_scheme (sanitize url0);
          (nl, u2) = split_netloc u1;
          (u3, frag) = cut_at CHR ''#'' u2;
          (u4, qry) = cut_at CHR ''?'' u3;
          (pth, prm) = (if sch \<in> set uses_params \<and> CHR '';'' \<in> set u4
                        then split_params u4 else (u4, []))
      in if (CHR ''['' \<in> set nl \<and> CHR '']'' \<notin> set nl) \<or> (CHR '']'' \<in> set nl \<and> CHR ''['' \<notin> set nl)
         then Inl ValueError
         else Inr \<lparr>scheme = sch, netloc = nl, path = pth, params = prm,
                   query = qry, fragment = frag\<rparr>)"

section \<open>The generator's configuration\<close>

text \<open>
  The constructor's arguments. \<^verbatim>\<open>public_dir\<close> is
  \<^verbatim>\<open>os.path.join(repo_path, 'public')\<close>.
\<close>

record config =
  source_url :: string
  target_url :: string
  repo_path :: string

definition public_dir :: "config \<Rightarrow> string" where
  "public_dir cfg = path_join (repo_path cfg) ''public''"

text \<open>\<^verbatim>\<open>is_same_domain\<close> (line 344)\<close>

definition is_same_domain :: "config \<Rightarrow> string \<Rightarrow> exn + bool" where
  "is_same_domain cfg url =
     (case urlparse url of
        Inl e \<Rightarrow> Inl e
      | Inr p \<Rightarrow>
          (case urlparse (source_url cfg) of
             Inl e \<Rightarrow> Inl e
           | Inr q \<Rightarrow> Inr (netloc p = netloc q)))"

text \<open>
  The first half of \<^verbatim>\<open>save_file\<close> (lines 348 to 355): the local path a URL is saved at.
\<close>

definition local_path :: "config \<Rightarrow> string \<Rightarrow> exn + string" where
  "local_path cfg url =
     (case urlparse url of
        Inl e \<Rightarrow> Inl e
      | Inr parsed_url \<Rightarrow>
          (let relative_path = lstrip_slash (path parsed_url);
               relative_path' =
                 (if relative_path = [] then ''index.html''
                  else if endswith relative_path ''/'' then relative_path @ ''index.html''
                  else relative_path)
           in Inr (path_join (public_dir cfg) relative_path')))"


section \<open>The world the crawler runs in\<close>

text \<open>
  What \<^verbatim>\<open>requests.get\<close> hands back: the status code, the \<^verbatim>\<open>content-type\<close> header
  (empty when absent), the decoded text and the raw bytes.
\<close>

record response =
  status_code :: nat
  content_type :: string
  resp_text :: string
  resp_content :: string

text \<open>
  A tag of a parsed document: its name, its attribute dictionary (an association list
  with distinct keys) and its \<^verbatim>\<open>.string\<close>. BeautifulSoup's \<^verbatim>\<open>find_all\<close> visits the tags in
  document order, so a parsed document is the list of its tags in that order.
\<close>

record tag =
  tag_name :: string
  attrs :: "(string \<times> string) list"
  tag_string :: "string option"

text \<open>
  What is observed of a run: every call of \<^verbatim>\<open>requests.get\<close> with the place in the code
  that issued it, every \<^verbatim>\<open>time.sleep(0.1)\<close>, every log line and every file written.
  \<open>Dispatch\<close> is the call in \<^verbatim>\<open>scrape_url\<close> (line 111), \<open>Refetch\<close> the calls that fetch
  the page again in \<^verbatim>\<open>scrape_meta_images\<close> and \<^verbatim>\<open>scrape_image_sizes\<close> (lines 138 and
  162), \<open>Eager\<close> the image fetches of these two functions (lines 150, 179 and 196) and
  \<open>Frame\<close> the call in \<^verbatim>\<open>scrape_iframe_content\<close> (line 211).
\<close>

datatype site = Dispatch | Refetch | Eager | Frame

datatype level = Info | Warning | Error

datatype event =
    Fetch site string
  | Sleep
  | Log level string
  | Saved string

text \<open>A file holds what was written to it: text (mode \<^verbatim>\<open>'w'\<close>) or bytes (mode \<^verbatim>\<open>'wb'\<close>).\<close>

datatype body = Text string | Bytes string

text \<open>
  The libraries and the outside world, as parameters of the model:
  \<^item> \<open>requests_get\<close>: the answer of the network to a request, given everything that
    happened before; \<open>None\<close> is a \<^verbatim>\<open>RequestException\<close> (no connection, timeout,
    invalid URL);
  \<^item> \<open>soup\<close>: the tags of \<^verbatim>\<open>BeautifulSoup(text, 'html.parser')\<close>;
  \<^item> \<open>str_soup\<close>: \<^verbatim>\<open>str(soup)\<close> for the document parsed from the given text, whose tags
    now are the given ones;
  \<^item> \<open>css_urls\<close>: \<^verbatim>\<open>re.findall\<close> of the \<^verbatim>\<open>url(...)\<close> pattern;
  \<^item> \<open>resource_paths\<close>: the second group of every match of \<^verbatim>\<open>resource_pattern\<close>;
  \<^item> \<open>urljoin\<close>: \<^verbatim>\<open>urllib.parse.urljoin\<close>; \<open>None\<close> is a \<^verbatim>\<open>ValueError\<close>;
  \<^item> \<open>os_refuses\<close>: whether the operating system refuses to create or open the file,
    given the files that exist;
  \<^item> \<open>decode_utf8\<close>: the text of a byte string, \<open>None\<close> when it is not UTF-8.
\<close>

record env =
  requests_get :: "event list \<Rightarrow> string \<Rightarrow> response option"
  soup :: "string \<Rightarrow> tag list"
  str_soup :: "string \<Rightarrow> tag list \<Rightarrow> string"
  css_urls :: "string \<Rightarrow> string list"
  resource_paths :: "string \<Rightarrow> string list"
  urljoin :: "string \<Rightarrow> string \<Rightarrow> string option"
  os_refuses :: "(string \<rightharpoonup> body) \<Rightarrow> string \<Rightarrow> bool"
  decode_utf8 :: "string \<Rightarrow> string option"

text \<open>The generator's mutable fields, the files below the output root and the trace.\<close>

record state =
  visited_urls :: "string set"
  file_urls :: "string set"
  files :: "string \<rightharpoonup> body"
  trace :: "event list"

definition initial :: state where
  "initial = \<lparr>visited_urls = {}, file_urls = {}, files = Map.empty, trace = []\<rparr>"

subsection \<open>Statements that change the state and may raise\<close>

text \<open>
  A Python statement is a function from the state to an outcome and the state it leaves:
  \<open>Inr x\<close> is normal completion with value \<open>x\<close>, \<open>Inl e\<close> a raised exception. What was
  done before an exception stays done.
\<close>

type_synonym 'a m = "state \<Rightarrow> (exn + 'a) \<times> state"

definition ret :: "'a \<Rightarrow> 'a m" where
  "ret x = (\<lambda>s. (Inr x, s))"

definition raise :: "exn \<Rightarrow> 'a m" where
  "raise e = (\<lambda>s. (Inl e, s))"

definition lift :: "exn + 'a \<Rightarrow> 'a m" where
  "lift r = (\<lambda>s. (r, s))"

definition bind :: "'a m \<Rightarrow> ('a \<Rightarrow> 'b m) \<Rightarrow> 'b m" where
  "bind m f = (\<lambda>s. case m s of (Inl e, s') \<Rightarrow> (Inl e, s') | (Inr x, s') \<Rightarrow> f x s')"

text \<open>\<^verbatim>\<open>try: m except E: h\<close>, where \<open>catches\<close> says which exceptions \<open>E\<close> covers.\<close>

definition try_except :: "'a m \<Rightarrow> (exn \<Rightarrow> bool) \<Rightarrow> 'a m \<Rightarrow> 'a m" where
  "try_except m catches h =
     (\<lambda>s. case m s of
             (Inl e, s') \<Rightarrow> if catches e then h s' else (Inl e, s')
           | (Inr x, s') \<Rightarrow> (Inr x, s'))"

definition is_request_exception :: "exn \<Rightarrow> bool" where
  "is_request_exception e = (e = RequestException)"

text \<open>Every exception of the model is a subclass of \<^verbatim>\<open>Exception\<close>.\<close>

definition is_exception :: "exn \<Rightarrow> bool" where
  "is_exception e = True"

text \<open>\<^verbatim>\<open>for x in xs: f(x)\<close>\<close>

fun for_each :: "('a \<Rightarrow> unit m) \<Rightarrow> 'a list \<Rightarrow> unit m" where
  "for_each f [] = ret ()"
| "for_each f (x # xs) = bind (f x) (\<lambda>_. for_each f xs)"

text \<open>A loop that may assign to the elements it visits.\<close>

fun for_each_update :: "('a \<Rightarrow> 'a m) \<Rightarrow> 'a list \<Rightarrow> 'a list m" where
  "for_each_update f [] = ret []"
| "for_each_update f (x # xs) =
     bind (f x) (\<lambda>y. bind (for_each_update f xs) (\<lambda>ys. ret (y # ys)))"

definition emit :: "event \<Rightarrow> unit m" where
  "emit ev = (\<lambda>s. (Inr (), s\<lparr>trace := trace s @ [ev]\<rparr>))"

definition log :: "level \<Rightarrow> string \<Rightarrow> unit m" where
  "log l msg = emit (Log l msg)"

text \<open>\<^verbatim>\<open>time.sleep(0.1)\<close>\<close>

definition sleep :: "unit m" where
  "sleep = emit Sleep"

text \<open>\<^verbatim>\<open>requests.get(url, timeout=30)\<close>, issued at \<open>st\<close>\<close>

definition http_get :: "env \<Rightarrow> site \<Rightarrow> string \<Rightarrow> response m" where
  "http_get env st url =
     (\<lambda>s. let s' = s\<lparr>trace := trace s @ [Fetch st url]\<rparr>
          in case requests_get env (trace s) url of
               None \<Rightarrow> (Inl RequestException, s')
             | Some r \<Rightarrow> (Inr r, s'))"

text \<open>\<^verbatim>\<open>response.raise_for_status()\<close>: an \<^verbatim>\<open>HTTPError\<close> for a 4xx or 5xx status.\<close>

definition raise_for_status :: "response \<Rightarrow> unit m" where
  "raise_for_status r =
     (if 400 \<le> status_code r \<and> status_code r < 600 then raise RequestException else ret ())"

section \<open>The generator\<close>

text \<open>\<^verbatim>\<open>update_url\<close> and \<^verbatim>\<open>update_all_urls\<close> (lines 507 to 511)\<close>

definition update_url :: "config \<Rightarrow> string \<Rightarrow> string" where
  "update_url cfg url = replace (source_url cfg) (target_url cfg) url"

definition update_all_urls :: "config \<Rightarrow> string \<Rightarrow> string" where
  "update_all_urls cfg content' = replace (source_url cfg) (target_url cfg) content'"

text \<open>
  \<^verbatim>\<open>save_file\<close> (line 347). The \<^verbatim>\<open>extension\<close> argument is not used by the function and
  is left out; \<^verbatim>\<open>is_binary\<close> is the constructor of the body. \<open>write_file\<close> is
  \<^verbatim>\<open>with open(file_path, mode) as f: f.write(content)\<close>.
\<close>

definition write_file :: "env \<Rightarrow> string \<Rightarrow> body \<Rightarrow> unit m" where
  "write_file env file_path content' =
     (\<lambda>s. if os_refuses env (files s) file_path then (Inl OSError, s)
          else (Inr (), s\<lparr>files := (files s)(file_path \<mapsto> content'),
                           trace := trace s @ [Saved file_path]\<rparr>))"

definition save_file :: "config \<Rightarrow> env \<Rightarrow> string \<Rightarrow> body \<Rightarrow> unit m" where
  "save_file cfg env url content' =
     bind (lift (local_path cfg url)) (\<lambda>file_path.
     bind (write_file env file_path content') (\<lambda>_.
     log Info (''Saved: '' @ file_path)))"

definition add_file_url :: "string \<Rightarrow> unit m" where
  "add_file_url url = (\<lambda>s. (Inr (), s\<lparr>file_urls := insert url (file_urls s)\<rparr>))"

text \<open>Python's \<^verbatim>\<open>a or b\<close> on attribute values, where \<^verbatim>\<open>None\<close> and the empty string are false.\<close>

definition truthy :: "string option \<Rightarrow> bool" where
  "truthy v = (case v of None \<Rightarrow> False | Some x \<Rightarrow> x \<noteq> [])"

definition py_or :: "string option \<Rightarrow> string option \<Rightarrow> string option" where
  "py_or a b = (if truthy a then a else b)"

definition tag_get :: "tag \<Rightarrow> string \<Rightarrow> string option" where
  "tag_get t k = map_of (attrs t) k"

definition tag_get_default :: "tag \<Rightarrow> string \<Rightarrow> string \<Rightarrow> string" where
  "tag_get_default t k d = (case tag_get t k of None \<Rightarrow> d | Some v \<Rightarrow> v)"

definition str_or :: "string option \<Rightarrow> string \<Rightarrow> string" where
  "str_or a b = (case a of None \<Rightarrow> b | Some v \<Rightarrow> if v \<noteq> [] then v else b)"

definition tag_set :: "string \<Rightarrow> string \<Rightarrow> tag \<Rightarrow> tag" where
  "tag_set k v t = t\<lparr>attrs := AList.update k v (attrs t)\<rparr>"

text \<open>
  The body of the three eager image fetches (lines 178 to 187, 195 to 204 and 149 to
  158), which differ in the words of their log lines only.
\<close>

definition scrape_image :: "config \<Rightarrow> env \<Rightarrow> string \<Rightarrow> string \<Rightarrow> unit m" where
  "scrape_image cfg env what img_url =
     try_except
       (bind (http_get env Eager img_url) (\<lambda>img_response.
          if status_code img_response = 200
          then bind (add_file_url img_url) (\<lambda>_.
               bind (save_file cfg env img_url (Bytes (resp_content img_response))) (\<lambda>_.
               log Info (''Scraped '' @ what @ '': '' @ img_url)))
          else log Warning (''Failed to scrape '' @ what @ '' '' @ img_url)))
       is_request_exception
       (log Warning (''Failed to scrape '' @ what @ '' '' @ img_url))"

text \<open>The first lines of both functions: fetch the page again and parse it.\<close>

definition fetch_soup :: "env \<Rightarrow> string \<Rightarrow> tag list option m" where
  "fetch_soup env url =
     try_except
       (bind (http_get env Refetch url) (\<lambda>response.
        bind (raise_for_status response) (\<lambda>_.
        ret (Some (soup env (resp_text response))))))
       is_request_exception
       (bind (log Error (''Error fetching URL '' @ url)) (\<lambda>_. ret None))"

text \<open>\<^verbatim>\<open>scrape_meta_images\<close> (line 136)\<close>

definition scrape_meta_images :: "config \<Rightarrow> env \<Rightarrow> string \<Rightarrow> unit m" where
  "scrape_meta_images cfg env url =
     bind (fetch_soup env url) (\<lambda>parsed.
       case parsed of
         None \<Rightarrow> ret ()
       | Some tags \<Rightarrow>
           for_each (\<lambda>meta.
               case tag_get meta ''content'' of
                 None \<Rightarrow> ret ()
               | Some img_url \<Rightarrow>
                   if img_url \<noteq> []
                   then bind (lift (is_same_domain cfg img_url)) (\<lambda>same.
                          if same then scrape_image cfg env ''meta image'' img_url else ret ())
                   else ret ())
             (filter (\<lambda>t. tag_name t = ''meta''
                         \<and> tag_get t ''property'' \<in> {Some ''og:image'', Some ''twitter:image''})
                tags))"

text \<open>The candidate URLs of a \<^verbatim>\<open>srcset\<close> (line 174): the first word of every entry.\<close>

definition srcset_urls :: "string \<Rightarrow> string list" where
  "srcset_urls srcset =
     concat (map (\<lambda>x. take 1 (split_ws x))
               (filter (\<lambda>x. strip x \<noteq> []) (split_on CHR '','' srcset)))"

text \<open>\<^verbatim>\<open>scrape_image_sizes\<close> (line 160)\<close>

definition scrape_image_sizes :: "config \<Rightarrow> env \<Rightarrow> string \<Rightarrow> unit m" where
  "scrape_image_sizes cfg env url =
     bind (fetch_soup env url) (\<lambda>parsed.
       case parsed of
         None \<Rightarrow> ret ()
       | Some tags \<Rightarrow>
           bind (for_each (\<lambda>img.
                   let srcset = str_or (tag_get img ''srcset'') (tag_get_default img ''data-srcset'' []);
                       src = str_or (tag_get img ''src'') (tag_get_default img ''data-src'' []);
                       all_urls = (if src \<noteq> [] then [src] else []) @ srcset_urls srcset
                   in for_each (\<lambda>img_url.
                        if img_url \<noteq> []
                        then bind (lift (is_same_domain cfg img_url)) (\<lambda>same.
                               if same then scrape_image cfg env ''image'' img_url else ret ())
                        else ret ())
                      all_urls)
                 (filter (\<lambda>t. tag_name t \<in> {''img'', ''source''}) tags)) (\<lambda>_.
           for_each (\<lambda>tag.
               for_each (\<lambda>img_url.
                   bind (lift (is_same_domain cfg img_url)) (\<lambda>same.
                     if same then scrape_image cfg env ''background image'' img_url else ret ()))
                 (css_urls env (tag_get_default tag ''style'' [])))
             (filter (\<lambda>t. tag_get t ''style'' \<noteq> None) tags)))"

text \<open>
  Resolve a reference against a base, test the scope and hand an in-scope URL to a
  scraper: \<^verbatim>\<open>u = urljoin(base, ref); if self.is_same_domain(u): scrape(u)\<close>.
\<close>

definition urljoin_m :: "env \<Rightarrow> string \<Rightarrow> string \<Rightarrow> string m" where
  "urljoin_m env base ref =
     (case urljoin env base ref of None \<Rightarrow> raise ValueError | Some u \<Rightarrow> ret u)"

definition resolve_and_scrape ::
  "config \<Rightarrow> env \<Rightarrow> (string \<Rightarrow> unit m) \<Rightarrow> string \<Rightarrow> string \<Rightarrow> unit m" where
  "resolve_and_scrape cfg env scrape base ref =
     bind (urljoin_m env base ref) (\<lambda>new_url.
     bind (lift (is_same_domain cfg new_url)) (\<lambda>same.
       if same then scrape new_url else ret ()))"

text \<open>
  \<^verbatim>\<open>scrape_iframe_content\<close> (line 206); \<open>scrape_url\<close> stands for \<^verbatim>\<open>self.scrape_url\<close>.
  \<^verbatim>\<open>link['href']\<close> raises \<^verbatim>\<open>KeyError\<close> on a stylesheet link without \<^verbatim>\<open>href\<close>.
\<close>

definition scrape_iframe_content ::
  "config \<Rightarrow> env \<Rightarrow> (string \<Rightarrow> unit m) \<Rightarrow> string \<Rightarrow> unit m" where
  "scrape_iframe_content cfg env scrape_url iframe_src =
     bind (lift (is_same_domain cfg iframe_src)) (\<lambda>same.
       if \<not> same then ret ()
       else
         try_except
           (bind (http_get env Frame iframe_src) (\<lambda>response.
            bind (raise_for_status response) (\<lambda>_.
            let iframe_content = resp_text response in
            bind (save_file cfg env iframe_src (Text iframe_content)) (\<lambda>_.
            let iframe_soup = soup env iframe_content in
            bind (for_each (\<lambda>script.
                    resolve_and_scrape cfg env scrape_url iframe_src
                      (tag_get_default script ''src'' []))
                  (filter (\<lambda>t. tag_name t = ''script'' \<and> tag_get t ''src'' \<noteq> None)
                     iframe_soup)) (\<lambda>_.
            bind (for_each (\<lambda>link.
                    case tag_get link ''href'' of
                      None \<Rightarrow> raise KeyError
                    | Some href \<Rightarrow> resolve_and_scrape cfg env scrape_url iframe_src href)
                  (filter (\<lambda>t. tag_name t = ''link''
                              \<and> ''stylesheet'' \<in> set (split_ws (tag_get_default t ''rel'' [])))
                     iframe_soup)) (\<lambda>_.
            bind (for_each (\<lambda>img.
                    resolve_and_scrape cfg env scrape_url iframe_src
                      (tag_get_default img ''src'' []))
                  (filter (\<lambda>t. tag_name t = ''img'' \<and> tag_get t ''src'' \<noteq> None)
                     iframe_soup)) (\<lambda>_.
            for_each (\<lambda>resource_path.
                resolve_and_scrape cfg env scrape_url iframe_src resource_path)
              (resource_paths env iframe_content))))))))
           is_request_exception
           (log Error (''Error fetching iframe content from '' @ iframe_src)))"

text \<open>\<^verbatim>\<open>process_html\<close> (line 300)\<close>

definition process_html ::
  "config \<Rightarrow> env \<Rightarrow> (string \<Rightarrow> unit m) \<Rightarrow> string \<Rightarrow> string \<Rightarrow> unit m" where
  "process_html cfg env scrape_url url html_content =
     bind (save_file cfg env url (Text html_content)) (\<lambda>_.
     let tags = soup env html_content in
     bind (for_each (\<lambda>tag.
             let attr = py_or (tag_get tag ''href'')
                          (py_or (tag_get tag ''src'') (tag_get tag ''data-src''))
             in if truthy attr then resolve_and_scrape cfg env scrape_url url (the attr)
                else ret ())
           (filter (\<lambda>t. tag_name t \<in> {''a'', ''link'', ''script'', ''img'', ''source''}) tags)) (\<lambda>_.
     bind (for_each_update (\<lambda>iframe.
             if tag_name iframe = ''iframe'' \<and> truthy (tag_get iframe ''src'')
             then bind (urljoin_m env url (tag_get_default iframe ''src'' [])) (\<lambda>iframe_url.
                  bind (lift (is_same_domain cfg iframe_url)) (\<lambda>same.
                    if same
                    then bind (scrape_iframe_content cfg env scrape_url iframe_url) (\<lambda>_.
                         ret (tag_set ''src'' (update_url cfg iframe_url) iframe))
                    else ret iframe))
             else ret iframe)
           tags) (\<lambda>tags'.
     bind (for_each (\<lambda>style.
             case tag_string style of
               None \<Rightarrow> ret ()
             | Some css_content \<Rightarrow>
                 if css_content \<noteq> []
                 then for_each (resolve_and_scrape cfg env scrape_url url)
                        (css_urls env css_content)
                 else ret ())
           (filter (\<lambda>t. tag_name t = ''style'') tags')) (\<lambda>_.
     bind (for_each (\<lambda>tag.
             for_each (resolve_and_scrape cfg env scrape_url url)
               (css_urls env (tag_get_default tag ''style'' [])))
           (filter (\<lambda>t. tag_get t ''style'' \<noteq> None) tags')) (\<lambda>_.
     save_file cfg env url (Text (str_soup env html_content tags')))))))"

text \<open>
  What \<^verbatim>\<open>scrape_url\<close> does with a response that \<^verbatim>\<open>raise_for_status\<close> let through
  (lines 114 to 127), with \<open>scrape_url\<close> for the calls the page processing makes back
  into it.
\<close>

definition handle_response ::
  "config \<Rightarrow> env \<Rightarrow> (string \<Rightarrow> unit m) \<Rightarrow> string \<Rightarrow> response \<Rightarrow> unit m" where
  "handle_response cfg env scrape_url url response =
     (let content_type' = lower (content_type response) in
      if contains content_type' ''text/html''
      then bind (process_html cfg env scrape_url url (resp_text response)) (\<lambda>_.
           bind (scrape_image_sizes cfg env url) (\<lambda>_.
           scrape_meta_images cfg env url))
      else if contains content_type' ''image''
      then bind (add_file_url url) (\<lambda>_.
           save_file cfg env url (Bytes (resp_content response)))
      else if list_ex (contains content_type') [''text/css'', ''javascript'', ''application'']
      then bind (add_file_url url) (\<lambda>_.
           save_file cfg env url (Bytes (resp_content response)))
      else bind (log Info (''Saving file with content-type '' @ content_type'
                           @ '': '' @ url)) (\<lambda>_.
           save_file cfg env url (Bytes (resp_content response))))"

text \<open>
  The body of \<^verbatim>\<open>scrape_url\<close> (line 105): the test and the update of the visited
  set, the request and the handling of its response under the two \<^verbatim>\<open>except\<close> clauses,
  which both log an error, and the delay.
\<close>

definition scrape_url_body ::
  "config \<Rightarrow> env \<Rightarrow> (string \<Rightarrow> unit m) \<Rightarrow> string \<Rightarrow> unit m" where
  "scrape_url_body cfg env scrape_url url =
     (\<lambda>s. if url \<in> visited_urls s then (Inr (), s)
          else
            bind
              (try_except
                 (try_except
                    (bind (http_get env Dispatch url) (\<lambda>response.
                     bind (raise_for_status response) (\<lambda>_.
                     handle_response cfg env scrape_url url response)))
                    is_request_exception
                    (log Error (''Error fetching '' @ url)))
                 is_exception
                 (log Error (''Unexpected error scraping '' @ url)))
              (\<lambda>_. sleep)
              (s\<lparr>visited_urls := insert url (visited_urls s)\<rparr>))"

text \<open>
  \<^verbatim>\<open>scrape_url\<close> calls itself through the page processing. The first argument is the
  number of nested calls the interpreter's recursion limit still allows; a call beyond
  it raises \<^verbatim>\<open>RecursionError\<close> in the caller.
\<close>

primrec scrape_url :: "config \<Rightarrow> env \<Rightarrow> nat \<Rightarrow> string \<Rightarrow> unit m" where
  "scrape_url cfg env 0 = (\<lambda>url. raise RecursionError)"
| "scrape_url cfg env (Suc d) = scrape_url_body cfg env (scrape_url cfg env d)"

definition root_files :: "string list" where
  "root_files = [''favicon.ico'', ''robots.txt'', ''sitemap.xml'', ''sitemap-authors.xml'',
                 ''sitemap-pages.xml'', ''sitemap-posts.xml'', ''sitemap-tags.xml'']"

text \<open>\<^verbatim>\<open>scrape_root_files\<close> (line 91) and \<^verbatim>\<open>scrape_site\<close> (line 87)\<close>

definition scrape_root_files :: "config \<Rightarrow> env \<Rightarrow> nat \<Rightarrow> unit m" where
  "scrape_root_files cfg env d =
     for_each (\<lambda>file.
         bind (urljoin_m env (source_url cfg) file) (\<lambda>url. scrape_url cfg env d url))
       root_files"

definition scrape_site :: "config \<Rightarrow> env \<Rightarrow> nat \<Rightarrow> unit m" where
  "scrape_site cfg env d =
     bind (scrape_url cfg env d (source_url cfg)) (\<lambda>_. scrape_root_files cfg env d)"


subsection \<open>The format-augmentation pass\<close>

text \<open>
  \<^verbatim>\<open>url_to_local_path\<close> (line 539). \<open>Inr None\<close> is the \<^verbatim>\<open>None\<close> the function returns for
  a URL of another host. The two origins are parsed only when the URL has an authority.
\<close>

definition url_to_local_path :: "config \<Rightarrow> string \<Rightarrow> exn + string option" where
  "url_to_local_path cfg url =
     (if startswith url ''/'' then Inr (Some (path_join (public_dir cfg) (lstrip_slash url)))
      else
        case urlparse url of
          Inl e \<Rightarrow> Inl e
        | Inr parsed_url \<Rightarrow>
            (let here = Inr (Some (path_join (public_dir cfg) (lstrip_slash (path parsed_url))))
             in if netloc parsed_url = [] then here
                else
                  case urlparse (source_url cfg) of
                    Inl e \<Rightarrow> Inl e
                  | Inr src \<Rightarrow>
                      (case urlparse (target_url cfg) of
                         Inl e \<Rightarrow> Inl e
                       | Inr tgt \<Rightarrow>
                           if netloc parsed_url \<notin> {netloc src, netloc tgt} then Inr None
                           else here)))"

text \<open>
  \<^verbatim>\<open>re.sub(r'\.[^.]+$', f'.{format_ext}', orig_src)\<close>: what follows the last dot is
  replaced, when something follows it.
\<close>

definition re_sub_ext :: "string \<Rightarrow> string \<Rightarrow> string" where
  "re_sub_ext format_ext orig_src =
     (case rfind CHR ''.'' orig_src of
        None \<Rightarrow> orig_src
      | Some i \<Rightarrow>
          if i + 1 < length orig_src then take i orig_src @ ''.'' @ format_ext
          else orig_src)"

text \<open>
  The inner loop over the entries of the original \<^verbatim>\<open>srcset\<close> (lines 469 to 478), with
  the list \<^verbatim>\<open>srcset\<close> it appends to. \<open>os_path_exists\<close> is \<^verbatim>\<open>os.path.exists\<close>.
\<close>

fun format_srcset ::
  "config \<Rightarrow> (string \<Rightarrow> bool) \<Rightarrow> string \<Rightarrow> string list \<Rightarrow> string list \<Rightarrow> exn + string list" where
  "format_srcset cfg os_path_exists format_ext [] srcset = Inr srcset"
| "format_srcset cfg os_path_exists format_ext (src_entry # rest) srcset =
     (if strip src_entry \<noteq> []
      then
        case split_ws (strip src_entry) of
          [orig_src, width] \<Rightarrow>
            (let new_src = re_sub_ext format_ext orig_src
             in case url_to_local_path cfg new_src of
                  Inl e \<Rightarrow> Inl e
                | Inr local_path' \<Rightarrow>
                    if truthy local_path' \<and> os_path_exists (the local_path')
                    then format_srcset cfg os_path_exists format_ext rest
                           (srcset @ [update_url cfg new_src @ '' '' @ width])
                    else format_srcset cfg os_path_exists format_ext rest srcset)
        | _ \<Rightarrow> format_srcset cfg os_path_exists format_ext rest srcset
      else format_srcset cfg os_path_exists format_ext rest srcset)"

text \<open>
  The body of the loop over the formats (lines 467 to 486): the \<^verbatim>\<open>source\<close> tag made
  for one format \<open>(format_ext, format_type)\<close>, if one is made.
\<close>

definition format_source ::
  "config \<Rightarrow> (string \<Rightarrow> bool) \<Rightarrow> string \<Rightarrow> string \<Rightarrow> string \<times> string \<Rightarrow> exn + tag option" where
  "format_source cfg os_path_exists original_srcset sizes fmt =
     (case format_srcset cfg os_path_exists (fst fmt) (split_on CHR '','' original_srcset) [] of
        Inl e \<Rightarrow> Inl e
      | Inr srcset \<Rightarrow>
          if srcset \<noteq> []
          then Inr (Some \<lparr>tag_name = ''source'',
                          attrs = [(''type'', snd fmt), (''srcset'', join '', '' srcset)]
                                  @ (if sizes \<noteq> [] then [(''sizes'', sizes)] else []),
                          tag_string = None\<rparr>)
          else Inr None)"

definition formats :: "(string \<times> string) list" where
  "formats = [(''webp'', ''image/webp''), (''avif'', ''image/avif''), (''jxl'', ''image/jxl'')]"

text \<open>The loop over the formats; \<^verbatim>\<open>picture.insert(0, source)\<close> puts a new tag first.\<close>

fun add_sources ::
  "config \<Rightarrow> (string \<Rightarrow> bool) \<Rightarrow> string \<Rightarrow> string \<Rightarrow> (string \<times> string) list \<Rightarrow> tag list
   \<Rightarrow> exn + tag list" where
  "add_sources cfg os_path_exists original_srcset sizes [] picture = Inr picture"
| "add_sources cfg os_path_exists original_srcset sizes (fmt # fmts) picture =
     (case format_source cfg os_path_exists original_srcset sizes fmt of
        Inl e \<Rightarrow> Inl e
      | Inr None \<Rightarrow> add_sources cfg os_path_exists original_srcset sizes fmts picture
      | Inr (Some source) \<Rightarrow>
          add_sources cfg os_path_exists original_srcset sizes fmts (source # picture))"

text \<open>The new value of an entry of the image's own \<^verbatim>\<open>srcset\<close> (line 459).\<close>

definition update_entry :: "config \<Rightarrow> string \<Rightarrow> string" where
  "update_entry cfg x =
     (case split_ws x of
        a # b # _ \<Rightarrow> update_url cfg a @ '' '' @ b
      | _ \<Rightarrow> update_url cfg x)"

text \<open>
  The body of the loop over the \<^verbatim>\<open>img\<close> tags (lines 446 to 494): the children of the
  \<^verbatim>\<open>picture\<close> element that replaces the image, \<open>None\<close> for an image without source
  (\<^verbatim>\<open>continue\<close>).
\<close>

definition wrap_img :: "config \<Rightarrow> (string \<Rightarrow> bool) \<Rightarrow> tag \<Rightarrow> exn + tag list option" where
  "wrap_img cfg os_path_exists img =
     (let src = py_or (tag_get img ''src'') (tag_get img ''data-src'')
      in if \<not> truthy src then Inr None
         else
           let original_srcset =
                 str_or (tag_get img ''srcset'') (tag_get_default img ''data-srcset'' []);
               sizes = tag_get_default img ''sizes'' [];
               img1 = tag_set ''src'' (update_url cfg (the src)) img;
               img2 = (if original_srcset \<noteq> []
                       then tag_set ''srcset''
                              (join '', '' (map (update_entry cfg) (split_on CHR '','' original_srcset)))
                              img1
                       else img1)
           in case add_sources cfg os_path_exists original_srcset sizes formats [] of
                Inl e \<Rightarrow> Inl e
              | Inr sources \<Rightarrow> Inr (Some (sources @ [tag_set ''loading'' ''lazy'' img2])))"

subsection \<open>The global URL rewrite pass\<close>

text \<open>\<^verbatim>\<open>with open(file_path, 'r', encoding='utf-8') as f: content = f.read()\<close>\<close>

definition read_file :: "env \<Rightarrow> string \<Rightarrow> string m" where
  "read_file env file_path =
     (\<lambda>s. case files s file_path of
             None \<Rightarrow> (Inl OSError, s)
           | Some (Text t) \<Rightarrow> (Inr t, s)
           | Some (Bytes b) \<Rightarrow>
               (case decode_utf8 env b of
                  None \<Rightarrow> (Inl UnicodeDecodeError, s)
                | Some t \<Rightarrow> (Inr t, s)))"

text \<open>The loop over the \<^verbatim>\<open>iframe\<close> tags of an HTML file (lines 528 to 531).\<close>

definition update_iframes :: "config \<Rightarrow> tag list \<Rightarrow> tag list" where
  "update_iframes cfg tags =
     map (\<lambda>iframe.
            if tag_name iframe = ''iframe'' \<and> truthy (tag_get iframe ''src'')
            then tag_set ''src'' (update_url cfg (tag_get_default iframe ''src'' [])) iframe
            else iframe)
         tags"

definition text_extensions :: "string list" where
  "text_extensions = [''.html'', ''.xml'', ''.css'', ''.js'', ''.json'']"

text \<open>What lines 523 to 532 compute from the content of a file with the given extension.\<close>

definition updated_content :: "config \<Rightarrow> env \<Rightarrow> string \<Rightarrow> string \<Rightarrow> string" where
  "updated_content cfg env file_extension content' =
     (let updated = update_all_urls cfg content'
      in if lower file_extension = ''.html''
         then str_soup env updated (update_iframes cfg (soup env updated))
         else updated)"

text \<open>The body of the loop over the files (lines 516 to 537).\<close>

definition rewrite_file :: "config \<Rightarrow> env \<Rightarrow> string \<times> string \<Rightarrow> unit m" where
  "rewrite_file cfg env entry =
     (case entry of (root, file) \<Rightarrow>
        let file_path = path_join root file;
            file_extension = snd (splitext file)
        in if lower file_extension \<in> set text_extensions
           then bind (read_file env file_path) (\<lambda>content'.
                  if updated_content cfg env file_extension content' \<noteq> content'
                  then bind (write_file env file_path
                               (Text (updated_content cfg env file_extension content'))) (\<lambda>_.
                       log Info (''Updated URLs in '' @ file_path))
                  else ret ())
           else ret ())"

text \<open>
  \<^verbatim>\<open>update_urls_in_all_files\<close> (line 513). \<open>walk\<close> lists the directory and the name of
  every file that \<^verbatim>\<open>os.walk(self.public_dir)\<close> yields, in the order it yields them.
\<close>

definition update_urls_in_all_files :: "config \<Rightarrow> env \<Rightarrow> (string \<times> string) list \<Rightarrow> unit m" where
  "update_urls_in_all_files cfg env walk = for_each (rewrite_file cfg env) walk"

section \<open>Reading a trace\<close>

text \<open>The URLs of all requests, in order, and those of the requests of \<^verbatim>\<open>scrape_url\<close>.\<close>

fun fetched :: "event list \<Rightarrow> string list" where
  "fetched [] = []"
| "fetched (Fetch st url # evs) = url # fetched evs"
| "fetched (ev # evs) = fetched evs"

fun dispatched :: "event list \<Rightarrow> string list" where
  "dispatched [] = []"
| "dispatched (Fetch Dispatch url # evs) = url # dispatched evs"
| "dispatched (ev # evs) = dispatched evs"

text \<open>The requests and the delays of a trace, without the log lines and the writes.\<close>

fun requests_and_delays :: "event list \<Rightarrow> event list" where
  "requests_and_delays [] = []"
| "requests_and_delays (Fetch st url # evs) = Fetch st url # requests_and_delays evs"
| "requests_and_delays (Sleep # evs) = Sleep # requests_and_delays evs"
| "requests_and_delays (ev # evs) = requests_and_delays evs"

text \<open>The number of delays of a trace.\<close>

fun sleeps :: "event list \<Rightarrow> nat" where
  "sleeps [] = 0"
| "sleeps (Sleep # evs) = Suc (sleeps evs)"
| "sleeps (ev # evs) = sleeps evs"

fun errors_logged :: "event list \<Rightarrow> string list" where
  "errors_logged [] = []"
| "errors_logged (Log Error msg # evs) = msg # errors_logged evs"
| "errors_logged (ev # evs) = errors_logged evs"

text \<open>The files a trace writes, in order.\<close>

fun written :: "event list \<Rightarrow> string list" where
  "written [] = []"
| "written (Saved p # evs) = p # written evs"
| "written (ev # evs) = written evs"

section \<open>Properties that statements keep\<close>

text \<open>
  An event is quiet when it is neither a request of \<^verbatim>\<open>scrape_url\<close> nor a delay. A
  property of the state is stable when quiet events, writes to the disk and additions to
  \<^verbatim>\<open>file_urls\<close> keep it; a statement preserves a property when the state it leaves has
  it whenever the state it starts in has it, whether it raises or not.
\<close>

definition quiet :: "event \<Rightarrow> bool" where
  "quiet ev = (case ev of Fetch st url \<Rightarrow> st \<noteq> Dispatch | Sleep \<Rightarrow> False | _ \<Rightarrow> True)"

definition stable :: "(state \<Rightarrow> bool) \<Rightarrow> bool" where
  "stable P =
     (\<forall>s. P s \<longrightarrow>
        (\<forall>ev. quiet ev \<longrightarrow> P (s\<lparr>trace := trace s @ [ev]\<rparr>))
      \<and> (\<forall>fs. P (s\<lparr>files := fs\<rparr>))
      \<and> (\<forall>us. P (s\<lparr>file_urls := us\<rparr>)))"

definition preserves :: "(state \<Rightarrow> bool) \<Rightarrow> 'a m \<Rightarrow> bool" where
  "preserves P m = (\<forall>s. P s \<longrightarrow> P (snd (m s)))"

text \<open>
  Two properties of the state that the crawl keeps. The first ties the visited set to the
  requests of \<^verbatim>\<open>scrape_url\<close>: no URL is requested there twice, and the URLs requested
  are the visited ones. The second counts the calls of \<^verbatim>\<open>scrape_url\<close> that have issued
  their request and not yet slept: there are \<open>k\<close> of them.
\<close>

definition visited_inv :: "state \<Rightarrow> bool" where
  "visited_inv s = (distinct (dispatched (trace s)) \<and> set (dispatched (trace s)) = visited_urls s)"

definition pending :: "nat \<Rightarrow> state \<Rightarrow> bool" where
  "pending k s = (length (dispatched (trace s)) = sleeps (trace s) + k)"

section \<open>Variants on disk\<close>



section \<open>Reading the disk\<close>

text \<open>
  The path of every entry of a walk, the text a file holds (or the exception reading it
  raises), and what it means that the rewrite pass has nothing left to do in a file: it
  has no text extension, or its text does not contain the source origin and, for an HTML
  file, parsing and printing it gives the same text and no \<^verbatim>\<open>src\<close> attribute contains the
  source origin.
\<close>

definition walk_paths :: "(string \<times> string) list \<Rightarrow> string list" where
  "walk_paths walk = map (\<lambda>entry. path_join (fst entry) (snd entry)) walk"

definition file_text :: "env \<Rightarrow> state \<Rightarrow> string \<Rightarrow> exn + string" where
  "file_text env s file_path = fst (read_file env file_path s)"

definition html_stable :: "config \<Rightarrow> env \<Rightarrow> string \<Rightarrow> bool" where
  "html_stable cfg env c =
     (str_soup env c (soup env c) = c
      \<and> list_all (\<lambda>t. \<not> contains (tag_get_default t ''src'' []) (source_url cfg)) (soup env c))"

definition origin_free :: "config \<Rightarrow> env \<Rightarrow> state \<Rightarrow> string \<times> string \<Rightarrow> bool" where
  "origin_free cfg env s entry =
     (lower (snd (splitext (snd entry))) \<notin> set text_extensions
      \<or> (case file_text env s (path_join (fst entry) (snd entry)) of
            Inl e \<Rightarrow> False
          | Inr c \<Rightarrow>
              \<not> contains c (source_url cfg)
              \<and> (lower (snd (splitext (snd entry))) \<noteq> ''.html'' \<or> html_stable cfg env c)))"

section \<open>The shape of a URL\<close>

text \<open>
  An absolute URL is written \<open>sch @ ''://'' @ auth @ rest\<close>: a scheme (a letter, then
  letters, digits, \<^verbatim>\<open>+\<close>, \<^verbatim>\<open>-\<close> and \<^verbatim>\<open>.\<close>), an authority (no \<^verbatim>\<open>/\<close>, \<^verbatim>\<open>?\<close>, \<^verbatim>\<open>#\<close>, no
  tab or line break, no square bracket) and a rest that is empty or starts with \<^verbatim>\<open>/\<close>,
  \<^verbatim>\<open>?\<close> or \<^verbatim>\<open>#\<close>.
\<close>

definition scheme_ok :: "string \<Rightarrow> bool" where
  "scheme_ok sch = (sch \<noteq> [] \<and> is_alpha (hd sch) \<and> list_all scheme_char sch)"

definition authority_ok :: "string \<Rightarrow> bool" where
  "authority_ok a =
     list_all (\<lambda>c. \<not> netloc_delim c \<and> \<not> unsafe_byte c \<and> c \<noteq> CHR ''['' \<and> c \<noteq> CHR '']'') a"

definition tail_ok :: "string \<Rightarrow> bool" where
  "tail_ok r = (r = [] \<or> netloc_delim (hd r))"

text \<open>
  Two URLs differ in their query and fragment only when they are \<open>u @ r1\<close> and
  \<open>u @ r2\<close>, where \<open>u\<close> has neither \<^verbatim>\<open>?\<close> nor \<^verbatim>\<open>#\<close> and \<open>r1\<close> and \<open>r2\<close> are empty or
  start with one of the two.
\<close>

definition no_query :: "string \<Rightarrow> bool" where
  "no_query u = list_all (\<lambda>c. c \<noteq> CHR ''?'' \<and> c \<noteq> CHR ''#'') u"

definition query_tail :: "string \<Rightarrow> bool" where
  "query_tail r = (r = [] \<or> hd r = CHR ''?'' \<or> hd r = CHR ''#'')"

section \<open>Concrete sites\<close>

text \<open>The configuration of the script's entry point (lines 601 to 603).\<close>

definition main_cfg :: config where
  "main_cfg = \<lparr>source_url = ''http://helium:2368'', target_url = ''https://cadenkraft.com'',
               repo_path = ''/home/ghost-static-site-gen''\<rparr>"

definition html_response :: "string \<Rightarrow> response" where
  "html_response t = \<lparr>status_code = 200, content_type = ''text/html; charset=utf-8'',
                       resp_text = t, resp_content = t\<rparr>"

definition jpeg_response :: response where
  "jpeg_response = \<lparr>status_code = 200, content_type = ''image/jpeg'',
                     resp_text = ''JFIF'', resp_content = ''JFIF''\<rparr>"

text \<open>
  A site of one page, whose only tag is an image with a single \<^verbatim>\<open>srcset\<close> candidate,
  and that image. The page never changes. Its URL has no path, so \<^verbatim>\<open>urljoin\<close> puts a
  reference that starts with a slash behind it, and leaves an absolute reference as it is.
\<close>

definition one_image_site :: "string \<Rightarrow> env" where
  "one_image_site candidate =
     \<lparr>requests_get = (\<lambda>_ url.
          if url = ''http://helium:2368''
          then Some (html_response (''<img srcset='' @ candidate @ ''>''))
          else if url = ''http://helium:2368/a-400.jpg'' then Some jpeg_response
          else None),
      soup = (\<lambda>_. [\<lparr>tag_name = ''img'', attrs = [(''srcset'', candidate)], tag_string = None\<rparr>]),
      str_soup = (\<lambda>t _. t),
      css_urls = (\<lambda>_. []),
      resource_paths = (\<lambda>_. []),
      urljoin = (\<lambda>base ref. Some (if startswith ref ''/'' then base @ ref else ref)),
      os_refuses = (\<lambda>_ _. False),
      decode_utf8 = Some\<rparr>"

text \<open>A server that answers every request with the given status and a plain text.\<close>

definition status_site :: "nat \<Rightarrow> env" where
  "status_site st =
     \<lparr>requests_get = (\<lambda>_ _. Some \<lparr>status_code = st, content_type = ''text/plain'',
                                   resp_text = ''moved'', resp_content = ''moved''\<rparr>),
      soup = (\<lambda>_. []),
      str_soup = (\<lambda>t _. t),
      css_urls = (\<lambda>_. []),
      resource_paths = (\<lambda>_. []),
      urljoin = (\<lambda>_ _. None),
      os_refuses = (\<lambda>_ _. False),
      decode_utf8 = Some\<rparr>"

text \<open>A target origin that starts with the source origin, and one style sheet on disk.\<close>

definition blog_cfg :: config where
  "blog_cfg = \<lparr>source_url = ''http://blog'', target_url = ''http://blog.example.com'',
               repo_path = ''/srv''\<rparr>"

definition blog_disk :: state where
  "blog_disk = initial\<lparr>files := [''/srv/public/site.css'' \<mapsto> Bytes ''url(http://blog/bg.png)'']\<rparr>"

definition blog_walk :: "(string \<times> string) list" where
  "blog_walk = [(''/srv/public'', ''site.css'')]"

definition settings_disk :: state where
  "settings_disk =
     initial\<lparr>files := [''/home/ghost-static-site-gen/public/settings.json''
                          \<mapsto> Bytes ''{url: http://helium:2368/}'']\<rparr>"

definition settings_walk :: "(string \<times> string) list" where
  "settings_walk = [(''/home/ghost-static-site-gen/public'', ''settings.json'')]"





section \<open>Where a URL is saved\<close>

lemma startswith_slash_iff: "startswith s ''/'' = (s \<noteq> [] \<and> hd s = CHR ''/'')"
  by (cases s) (auto simp: startswith_def)

lemma lstrip_slash_startswith:
  "startswith (lstrip_slash x @ b) ''/'' = (lstrip_slash x = [] \<and> startswith b ''/'')"
proof (cases "lstrip_slash x")
  case Nil
  then show ?thesis by simp
next
  case (Cons c cs)
  then have "dropWhile (\<lambda>c. c = CHR ''/'') x \<noteq> []" by (simp add: lstrip_slash_def)
  from hd_dropWhile[OF this] have "c \<noteq> CHR ''/''" using Cons by (simp add: lstrip_slash_def)
  with Cons show ?thesis by (simp add: startswith_slash_iff)
qed

lemma path_join_relative: "\<not> startswith b ''/'' \<Longrightarrow> suffix b (path_join a b)"
  by (auto simp: path_join_def suffix_def)

lemma local_path_parsed:
  "urlparse url = Inr p \<Longrightarrow>
   local_path cfg url =
     Inr (path_join (public_dir cfg)
            (if lstrip_slash (path p) = [] then ''index.html''
             else if endswith (lstrip_slash (path p)) ''/'' then lstrip_slash (path p) @ ''index.html''
             else lstrip_slash (path p)))"
  by (simp add: local_path_def Let_def)

lemma endswith_slash_iff: "endswith s ''/'' = (s \<noteq> [] \<and> last s = CHR ''/'')"
proof (cases s rule: rev_cases)
  case Nil
  then show ?thesis by (simp add: endswith_def)
next
  case (snoc xs x)
  then show ?thesis by (auto simp: endswith_def)
qed

lemma last_lstrip_slash: "lstrip_slash s \<noteq> [] \<Longrightarrow> last (lstrip_slash s) = last s"
  unfolding lstrip_slash_def
  by (metis last_appendR takeWhile_dropWhile_id)

lemma save_file_written:
  "local_path cfg url = Inr file_path \<Longrightarrow> \<not> os_refuses env (files s) file_path \<Longrightarrow>
   save_file cfg env url c s =
     (Inr (), s\<lparr>files := (files s)(file_path \<mapsto> c),
                 trace := trace s @ [Saved file_path, Log Info (''Saved: '' @ file_path)]\<rparr>)"
  by (simp add: save_file_def bind_def lift_def write_file_def log_def emit_def)

lemma written_append: "written (xs @ ys) = written xs @ written ys"
  by (induction xs rule: written.induct) auto

lemma local_path_index:
  assumes "urlparse url = Inr p" and a: "path p = [] \<or> endswith (path p) ''/''"
  shows "local_path cfg url = Inr (path_join (public_dir cfg) (lstrip_slash (path p) @ ''index.html''))"
proof -
  have "lstrip_slash (path p) \<noteq> [] \<Longrightarrow> endswith (lstrip_slash (path p)) ''/''"
    using a last_lstrip_slash[of "path p"] by (auto simp: endswith_slash_iff lstrip_slash_def)
  then show ?thesis
    unfolding local_path_parsed[OF assms(1)] by auto
qed

lemma index_suffix: "suffix ''index.html'' (path_join d (lstrip_slash x @ ''index.html''))"
proof -
  have "\<not> startswith (lstrip_slash x @ ''index.html'') ''/''"
    unfolding lstrip_slash_startswith by (simp add: startswith_def)
  from path_join_relative[OF this]
  have "suffix (lstrip_slash x @ ''index.html'') (path_join d (lstrip_slash x @ ''index.html''))" .
  then show ?thesis
    by (rule suffix_appendD)
qed

text \<open>
  Claim C4. The local path of a URL is a function of the URL (and of the output root)
  alone: \<open>save_file\<close> writes the file \<open>local_path cfg url\<close>, whatever the state, the
  content and the world are. When the path component of the URL is empty or ends in a
  slash, that file is \<^verbatim>\<open>index.html\<close> in the directory the path names.
\<close>

theorem local_path_deterministic_index:
  assumes "urlparse url = Inr p"
  shows "\<exists>file_path.
           local_path cfg url = Inr file_path
         \<and> (\<forall>env c s. \<not> os_refuses env (files s) file_path \<longrightarrow>
               written (trace (snd (save_file cfg env url c s))) = written (trace s) @ [file_path]
             \<and> files (snd (save_file cfg env url c s)) file_path = Some c)
         \<and> (path p = [] \<or> endswith (path p) ''/'' \<longrightarrow>
               file_path = path_join (public_dir cfg) (lstrip_slash (path p) @ ''index.html'')
             \<and> suffix ''index.html'' file_path)"
proof -
  obtain fp where lp: "local_path cfg url = Inr fp"
    using local_path_parsed[OF assms] by blast
  have sv: "\<not> os_refuses env (files s) fp \<longrightarrow>
               written (trace (snd (save_file cfg env url c s))) = written (trace s) @ [fp]
             \<and> files (snd (save_file cfg env url c s)) fp = Some c" for env c s
    by (simp add: save_file_written[OF lp] written_append)
  have ix: "path p = [] \<or> endswith (path p) ''/'' \<longrightarrow>
               fp = path_join (public_dir cfg) (lstrip_slash (path p) @ ''index.html'')
             \<and> suffix ''index.html'' fp"
  proof
    assume a: "path p = [] \<or> endswith (path p) ''/''"
    from local_path_index[OF assms a, of cfg] lp
    have "fp = path_join (public_dir cfg) (lstrip_slash (path p) @ ''index.html'')" by simp
    then show "fp = path_join (public_dir cfg) (lstrip_slash (path p) @ ''index.html'')
             \<and> suffix ''index.html'' fp"
      using index_suffix by simp
  qed
  have "local_path cfg url = Inr fp
         \<and> (\<forall>env c s. \<not> os_refuses env (files s) fp \<longrightarrow>
               written (trace (snd (save_file cfg env url c s))) = written (trace s) @ [fp]
             \<and> files (snd (save_file cfg env url c s)) fp = Some c)
         \<and> (path p = [] \<or> endswith (path p) ''/'' \<longrightarrow>
               fp = path_join (public_dir cfg) (lstrip_slash (path p) @ ''index.html'')
             \<and> suffix ''index.html'' fp)"
    using lp sv ix by blast
  then show ?thesis by (rule exI)
qed

theorem local_path_deterministic_index_witness:
  "urlparse ''http://helium:2368/tag/news/?page=2''
     = Inr \<lparr>scheme = ''http'', netloc = ''helium:2368'', path = ''/tag/news/'', params = [],
             query = ''page=2'', fragment = []\<rparr>
   \<and> local_path main_cfg ''http://helium:2368/tag/news/?page=2''
     = Inr ''/home/ghost-static-site-gen/public/tag/news/index.html''"
proof -
  have h: "urlparse ''http://helium:2368/tag/news/?page=2''
     = Inr \<lparr>scheme = ''http'', netloc = ''helium:2368'', path = ''/tag/news/'', params = [],
             query = ''page=2'', fragment = []\<rparr>"
    by code_simp
  have j: "path_join (public_dir main_cfg) (lstrip_slash ''/tag/news/'' @ ''index.html'')
             = ''/home/ghost-static-site-gen/public/tag/news/index.html''"
    by code_simp
  have e: "endswith ''/tag/news/'' ''/''"
    by code_simp
  from local_path_deterministic_index [OF h, of main_cfg] e j
  have "local_path main_cfg ''http://helium:2368/tag/news/?page=2''
     = Inr ''/home/ghost-static-site-gen/public/tag/news/index.html''"
    by auto
  with h show ?thesis by simp
qed


section \<open>The scope test\<close>

lemma scheme_char_ord: "scheme_char c \<Longrightarrow> 43 \<le> ord c \<and> ord c \<noteq> 58"
  by (auto simp: scheme_char_def is_alpha_def is_digit_def ord_def)

lemma scheme_char_facts:
  assumes "scheme_char c"
  shows "c \<noteq> CHR '':''" "\<not> unsafe_byte c" "\<not> ord c \<le> 32"
  using scheme_char_ord[OF assms] by (auto simp: unsafe_byte_def ord_def)

lemma netloc_delim_facts:
  assumes "netloc_delim c"
  shows "\<not> unsafe_byte c" "\<not> ord c \<le> 32" "\<not> scheme_char c" "c \<noteq> CHR '':''"
  using assms
  by (auto simp: netloc_delim_def unsafe_byte_def ord_def scheme_char_def is_alpha_def is_digit_def)

lemma tail_ok_filter: "tail_ok r \<Longrightarrow> tail_ok (filter (\<lambda>c. \<not> unsafe_byte c) r)"
  by (cases r) (auto simp: tail_ok_def netloc_delim_facts)

lemma takeWhile_tail: "tail_ok r \<Longrightarrow> takeWhile (\<lambda>c. \<not> netloc_delim c) r = []"
  by (cases r) (auto simp: tail_ok_def)

lemma dropWhile_tail: "tail_ok r \<Longrightarrow> dropWhile (\<lambda>c. \<not> netloc_delim c) r = r"
  by (cases r) (auto simp: tail_ok_def)

lemma sanitize_absolute:
  assumes "scheme_ok sch" "authority_ok auth"
  shows "sanitize (sch @ ''://'' @ auth @ rest)
         = sch @ ''://'' @ auth @ filter (\<lambda>c. \<not> unsafe_byte c) rest"
proof -
  obtain c cs where sch: "sch = c # cs" using assms(1) by (cases sch) (auto simp: scheme_ok_def)
  have all: "\<forall>x\<in>set sch. scheme_char x" using assms(1) by (simp add: scheme_ok_def list_all_iff)
  then have c: "\<not> ord c \<le> 32" using sch scheme_char_facts(3) by simp
  have f1: "filter (\<lambda>c. \<not> unsafe_byte c) sch = sch"
    using all scheme_char_facts(2) by (simp add: filter_id_conv)
  have f2: "filter (\<lambda>c. \<not> unsafe_byte c) auth = auth"
    using assms(2) by (simp add: authority_ok_def list_all_iff filter_id_conv)
  have f3: "\<not> unsafe_byte CHR '':''" "\<not> unsafe_byte CHR ''/''"
    by (simp_all add: unsafe_byte_def ord_def)
  have "dropWhile (\<lambda>c. ord c \<le> 32) (sch @ ''://'' @ auth @ rest) = sch @ ''://'' @ auth @ rest"
    using c sch by simp
  then show ?thesis
    unfolding sanitize_def using f1 f2 f3 by simp
qed

lemma split_scheme_absolute:
  assumes "scheme_ok sch"
  shows "split_scheme (sch @ '':'' @ rest) = (lower sch, rest)"
proof -
  have all: "\<forall>x\<in>set sch. scheme_char x" using assms by (simp add: scheme_ok_def list_all_iff)
  then have "\<forall>x\<in>set sch. x \<noteq> CHR '':''" using scheme_char_facts(1) by blast
  then have tw: "takeWhile (\<lambda>c. c \<noteq> CHR '':'') (sch @ '':'' @ rest) = sch"
    by simp
  show ?thesis
    unfolding split_scheme_def tw Let_def using assms by (simp add: scheme_ok_def)
qed

lemma split_netloc_absolute:
  assumes "authority_ok auth" "tail_ok rest"
  shows "split_netloc (''//'' @ auth @ rest) = (auth, rest)"
proof -
  have nd: "\<forall>x\<in>set auth. \<not> netloc_delim x"
    using assms(1) by (simp add: authority_ok_def list_all_iff)
  have "takeWhile (\<lambda>c. \<not> netloc_delim c) (auth @ rest) = auth"
    using nd takeWhile_tail[OF assms(2)] by simp
  moreover have "dropWhile (\<lambda>c. \<not> netloc_delim c) (auth @ rest) = rest"
    using nd dropWhile_tail[OF assms(2)] by simp
  ultimately show ?thesis by (simp add: split_netloc_def)
qed

lemma urlparse_netloc:
  "urlparse u = Inr p \<Longrightarrow> netloc p = fst (split_netloc (snd (split_scheme (sanitize u))))"
  by (auto simp: urlparse_def Let_def split_def split: if_splits)

lemma urlparse_defined:
  "CHR ''['' \<notin> set (fst (split_netloc (snd (split_scheme (sanitize u)))))
   \<Longrightarrow> CHR '']'' \<notin> set (fst (split_netloc (snd (split_scheme (sanitize u)))))
   \<Longrightarrow> \<exists>p. urlparse u = Inr p"
  by (simp add: urlparse_def Let_def split_def)

lemma urlparse_absolute:
  assumes "scheme_ok sch" "authority_ok auth" "tail_ok rest"
  shows "\<exists>p. urlparse (sch @ ''://'' @ auth @ rest) = Inr p \<and> netloc p = auth"
proof -
  let ?u = "sch @ ''://'' @ auth @ rest"
  let ?rest = "filter (\<lambda>c. \<not> unsafe_byte c) rest"
  have s: "sanitize ?u = sch @ '':'' @ (''//'' @ auth @ ?rest)"
    using sanitize_absolute[OF assms(1,2)] by simp
  have nl: "fst (split_netloc (snd (split_scheme (sanitize ?u)))) = auth"
    unfolding s split_scheme_absolute[OF assms(1)]
    using split_netloc_absolute[OF assms(2) tail_ok_filter[OF assms(3)]] by simp
  have nb: "CHR ''['' \<notin> set auth" "CHR '']'' \<notin> set auth"
    using assms(2) by (auto simp: authority_ok_def list_all_iff)
  from urlparse_defined[of ?u] nl nb obtain p where p: "urlparse ?u = Inr p" by auto
  from urlparse_netloc[OF p] nl have "netloc p = auth" by simp
  with p show ?thesis by blast
qed

text \<open>
  Claim C5. For an absolute URL and an absolute seed origin, \<open>is_same_domain\<close> returns
  true exactly when the two authorities are the same string; the scheme and what
  follows the authority play no part.
\<close>

theorem is_same_domain_authority:
  assumes "scheme_ok sch" "authority_ok auth" "tail_ok rest"
    and "scheme_ok seed_sch" "authority_ok seed_auth" "tail_ok seed_rest"
    and "source_url cfg = seed_sch @ ''://'' @ seed_auth @ seed_rest"
  shows "is_same_domain cfg (sch @ ''://'' @ auth @ rest) = Inr (auth = seed_auth)"
proof -
  from urlparse_absolute[OF assms(1-3)] obtain p
    where p: "urlparse (sch @ ''://'' @ auth @ rest) = Inr p" "netloc p = auth" by blast
  from urlparse_absolute[OF assms(4-6)] assms(7) obtain q
    where q: "urlparse (source_url cfg) = Inr q" "netloc q = seed_auth" by auto
  show ?thesis
    unfolding is_same_domain_def using p q by simp
qed

theorem is_same_domain_authority_witness:
  "scheme_ok ''https'' \<and> authority_ok ''helium:2368'' \<and> tail_ok ''/about/?x=1''
   \<and> scheme_ok ''http'' \<and> authority_ok ''example.org'' \<and> tail_ok []
   \<and> is_same_domain main_cfg ''https://helium:2368/about/?x=1'' = Inr True
   \<and> is_same_domain main_cfg ''http://example.org'' = Inr False"
proof -
  have s1: "scheme_ok ''https''" and s2: "scheme_ok ''http''"
    by (simp_all add: scheme_ok_def scheme_char_def is_alpha_def is_digit_def ord_def)
  have a1: "authority_ok ''helium:2368''" and a2: "authority_ok ''example.org''"
    by (simp_all add: authority_ok_def netloc_delim_def unsafe_byte_def ord_def)
  have t1: "tail_ok ''/about/?x=1''" and t2: "tail_ok []"
    by (simp_all add: tail_ok_def netloc_delim_def)
  have src: "source_url main_cfg = ''http'' @ ''://'' @ ''helium:2368'' @ []"
    by (simp add: main_cfg_def)
  from is_same_domain_authority [OF s1 a1 t1 s2 a1 t2 src]
  have r1: "is_same_domain main_cfg ''https://helium:2368/about/?x=1'' = Inr True" by simp
  from is_same_domain_authority [OF s2 a2 t2 s2 a1 t2 src]
  have r2: "is_same_domain main_cfg ''http://example.org'' = Inr False" by simp
  from s1 s2 a1 a2 t1 t2 r1 r2 show ?thesis by simp
qed

section \<open>Query and fragment\<close>

lemma query_tail_facts:
  assumes "query_tail r" "r \<noteq> []"
  shows "netloc_delim (hd r)" "hd r \<noteq> CHR ''/''"
  using assms by (auto simp: query_tail_def netloc_delim_def)

lemma query_tail_tail_ok: "query_tail r \<Longrightarrow> tail_ok r"
  by (auto simp: query_tail_def tail_ok_def netloc_delim_def)

lemma query_tail_filter: "query_tail r \<Longrightarrow> query_tail (filter (\<lambda>c. \<not> unsafe_byte c) r)"
  by (cases r) (auto simp: query_tail_def unsafe_byte_def ord_def)

lemma no_query_sanitize: "no_query u \<Longrightarrow> no_query (sanitize u)"
proof -
  assume "no_query u"
  then have "\<forall>c\<in>set u. c \<noteq> CHR ''?'' \<and> c \<noteq> CHR ''#''" by (simp add: no_query_def list_all_iff)
  moreover have "set (sanitize u) \<subseteq> set u"
    unfolding sanitize_def using set_dropWhileD by fastforce
  ultimately show ?thesis by (auto simp: no_query_def list_all_iff)
qed

lemma sanitize_append:
  assumes "query_tail r"
  shows "sanitize (u @ r) = sanitize u @ filter (\<lambda>c. \<not> unsafe_byte c) r"
proof -
  have "dropWhile (\<lambda>c. ord c \<le> 32) r = r"
    using assms netloc_delim_facts(2)[of "hd r"] query_tail_facts(1)[OF assms]
    by (cases r) auto
  then have "dropWhile (\<lambda>c. ord c \<le> 32) (u @ r) = dropWhile (\<lambda>c. ord c \<le> 32) u @ r"
    by (simp add: dropWhile_append)
  then show ?thesis by (simp add: sanitize_def)
qed

lemma length_takeWhile_less:
  assumes "x \<in> set u" "\<not> P x"
  shows "length (takeWhile P u) < length u"
proof -
  have "dropWhile P u \<noteq> []" using assms by (auto simp: dropWhile_eq_Nil_conv)
  moreover have "length u = length (takeWhile P u) + length (dropWhile P u)"
    by (metis length_append takeWhile_dropWhile_id)
  ultimately show ?thesis by simp
qed

lemma split_scheme_append:
  assumes "query_tail r"
  shows "split_scheme (u @ r) = (fst (split_scheme u), snd (split_scheme u) @ r)"
proof (cases "CHR '':'' \<in> set u")
  case True
  let ?pre = "takeWhile (\<lambda>c. c \<noteq> CHR '':'') u"
  have tw: "takeWhile (\<lambda>c. c \<noteq> CHR '':'') (u @ r) = ?pre"
    using True by (simp add: takeWhile_append1)
  have len: "length ?pre < length u"
    using True by (rule length_takeWhile_less) simp
  then have dr: "drop (length ?pre + 1) (u @ r) = drop (length ?pre + 1) u @ r"
    by simp
  show ?thesis
    unfolding split_scheme_def tw Let_def using len dr by simp
next
  case False
  then have all: "\<forall>x\<in>set u. x \<noteq> CHR '':''" by blast
  then have pre_u: "takeWhile (\<lambda>c. c \<noteq> CHR '':'') u = u" by (simp add: takeWhile_eq_all_conv)
  have su: "split_scheme u = ([], u)"
    unfolding split_scheme_def pre_u Let_def by simp
  show ?thesis
  proof (cases r)
    case Nil
    then show ?thesis by simp
  next
    case (Cons c cs)
    then have c: "netloc_delim c" using query_tail_facts(1)[OF assms] by simp
    have pre: "takeWhile (\<lambda>c. c \<noteq> CHR '':'') (u @ r) = u @ c # takeWhile (\<lambda>c. c \<noteq> CHR '':'') cs"
      using all Cons netloc_delim_facts(4)[OF c] by simp
    have "split_scheme (u @ r) = ([], u @ r)"
      unfolding split_scheme_def pre Let_def using netloc_delim_facts(3)[OF c] by simp
    with su show ?thesis by simp
  qed
qed

lemma no_query_split_scheme: "no_query u \<Longrightarrow> no_query (snd (split_scheme u))"
proof -
  assume a: "no_query u"
  have "set (snd (split_scheme u)) \<subseteq> set u"
    unfolding split_scheme_def Let_def by (auto dest: in_set_dropD)
  with a show ?thesis by (auto simp: no_query_def list_all_iff)
qed

lemma take2_append:
  assumes "query_tail r"
  shows "(take 2 (v @ r) = ''//'') = (take 2 v = ''//'')"
proof (cases v)
  case Nil
  then show ?thesis using assms by (cases r) (auto simp: query_tail_def)
next
  case (Cons a w)
  show ?thesis
  proof (cases w)
    case Nil
    then show ?thesis using Cons assms by (cases r) (auto simp: query_tail_def)
  next
    case (Cons b x)
    then show ?thesis using \<open>v = a # w\<close> by simp
  qed
qed

lemma takeWhile_append_stop: "takeWhile P ys = [] \<Longrightarrow> takeWhile P (xs @ ys) = takeWhile P xs"
  by (induction xs) auto

lemma dropWhile_append_stop: "dropWhile P ys = ys \<Longrightarrow> dropWhile P (xs @ ys) = dropWhile P xs @ ys"
  by (induction xs) auto

lemma split_netloc_append:
  assumes "query_tail r"
  shows "split_netloc (v @ r) = (fst (split_netloc v), snd (split_netloc v) @ r)"
proof (cases "take 2 v = ''//''")
  case True
  then have l: "2 \<le> length v" by (cases v; cases "tl v") auto
  then have d: "drop 2 (v @ r) = drop 2 v @ r" by simp
  have t: "tail_ok r" using assms by (rule query_tail_tail_ok)
  have "takeWhile (\<lambda>c. \<not> netloc_delim c) (drop 2 v @ r) = takeWhile (\<lambda>c. \<not> netloc_delim c) (drop 2 v)"
    by (rule takeWhile_append_stop[OF takeWhile_tail[OF t]])
  moreover have "dropWhile (\<lambda>c. \<not> netloc_delim c) (drop 2 v @ r) = dropWhile (\<lambda>c. \<not> netloc_delim c) (drop 2 v) @ r"
    by (rule dropWhile_append_stop[OF dropWhile_tail[OF t]])
  ultimately show ?thesis
    using True take2_append[OF assms, of v] d by (simp add: split_netloc_def)
next
  case False
  then show ?thesis
    using take2_append[OF assms, of v] by (simp add: split_netloc_def)
qed

lemma no_query_split_netloc: "no_query v \<Longrightarrow> no_query (snd (split_netloc v))"
proof -
  assume a: "no_query v"
  have "set (snd (split_netloc v)) \<subseteq> set v"
    unfolding split_netloc_def
    by (auto dest!: set_dropWhileD in_set_dropD)
  with a show ?thesis by (auto simp: no_query_def list_all_iff)
qed

text \<open>The part of a URL before the query: what is left after both cuts.\<close>

lemma cut_no_query:
  assumes "no_query w" "query_tail r"
  shows "fst (cut_at CHR ''?'' (fst (cut_at CHR ''#'' (w @ r)))) = w"
proof -
  have w: "\<forall>x\<in>set w. x \<noteq> CHR ''?'' \<and> x \<noteq> CHR ''#''"
    using assms(1) by (simp add: no_query_def list_all_iff)
  then have w1: "takeWhile (\<lambda>d. d \<noteq> CHR ''#'') w = w" and w2: "takeWhile (\<lambda>d. d \<noteq> CHR ''?'') w = w"
    by (simp_all add: takeWhile_eq_all_conv)
  have w1': "takeWhile (\<lambda>d. d \<noteq> CHR ''#'') (w @ ys) = w @ takeWhile (\<lambda>d. d \<noteq> CHR ''#'') ys" for ys
    using w by simp
  have w2': "takeWhile (\<lambda>d. d \<noteq> CHR ''?'') (w @ ys) = w @ takeWhile (\<lambda>d. d \<noteq> CHR ''?'') ys" for ys
    using w by simp
  show ?thesis
  proof (cases r)
    case Nil
    then show ?thesis by (simp add: cut_at_def w1 w2)
  next
    case (Cons c cs)
    then have "c = CHR ''?'' \<or> c = CHR ''#''" using assms(2) by (simp add: query_tail_def)
    then show ?thesis
    proof
      assume "c = CHR ''?''"
      then show ?thesis unfolding Cons cut_at_def fst_conv w1' by (simp add: w2')
    next
      assume "c = CHR ''#''"
      then show ?thesis unfolding Cons cut_at_def fst_conv w1' by (simp add: w2)
    qed
  qed
qed

lemma urlparse_path:
  "urlparse u = Inr p \<Longrightarrow>
   path p =
     (let sch = fst (split_scheme (sanitize u));
          u4 = fst (cut_at CHR ''?'' (fst (cut_at CHR ''#''
                 (snd (split_netloc (snd (split_scheme (sanitize u))))))))
      in if sch \<in> set uses_params \<and> CHR '';'' \<in> set u4 then fst (split_params u4) else u4)"
  by (auto simp: urlparse_def Let_def split_def split: if_splits)

lemma urlparse_ok_iff:
  "(\<exists>p. urlparse u = Inr p) =
   (let nl = fst (split_netloc (snd (split_scheme (sanitize u))))
    in \<not> ((CHR ''['' \<in> set nl \<and> CHR '']'' \<notin> set nl) \<or> (CHR '']'' \<in> set nl \<and> CHR ''['' \<notin> set nl)))"
  by (auto simp: urlparse_def Let_def split_def split: if_splits)

lemma urlparse_Inl: "urlparse u = Inl e \<Longrightarrow> e = ValueError \<and> \<not> (\<exists>p. urlparse u = Inr p)"
  by (auto simp: urlparse_def Let_def split_def split: if_splits)

lemma urlparse_query_tail:
  assumes "no_query u" "query_tail r"
  shows "(\<exists>p. urlparse (u @ r) = Inr p) = (\<exists>p. urlparse u = Inr p)"
    and "urlparse (u @ r) = Inr p \<Longrightarrow> urlparse u = Inr q \<Longrightarrow> path p = path q"
proof -
  let ?r = "filter (\<lambda>c. \<not> unsafe_byte c) r"
  let ?v = "snd (split_scheme (sanitize u))"
  let ?w = "snd (split_netloc ?v)"
  have r: "query_tail ?r" using assms(2) by (rule query_tail_filter)
  have s: "sanitize (u @ r) = sanitize u @ ?r" using assms(2) by (rule sanitize_append)
  have sch: "split_scheme (sanitize (u @ r)) = (fst (split_scheme (sanitize u)), ?v @ ?r)"
    unfolding s by (rule split_scheme_append[OF r])
  have nl: "split_netloc (?v @ ?r) = (fst (split_netloc ?v), ?w @ ?r)"
    by (rule split_netloc_append[OF r])
  have nq: "no_query ?w"
    using assms(1) by (intro no_query_split_netloc no_query_split_scheme no_query_sanitize)
  have nq0: "query_tail []" by (simp add: query_tail_def)
  have c1: "fst (cut_at CHR ''?'' (fst (cut_at CHR ''#'' (?w @ ?r)))) = ?w"
    by (rule cut_no_query[OF nq r])
  have c0: "fst (cut_at CHR ''?'' (fst (cut_at CHR ''#'' ?w))) = ?w"
    using cut_no_query[OF nq nq0] by simp
  show "(\<exists>p. urlparse (u @ r) = Inr p) = (\<exists>p. urlparse u = Inr p)"
    unfolding urlparse_ok_iff by (simp add: Let_def sch nl)
  show "path p = path q" if "urlparse (u @ r) = Inr p" "urlparse u = Inr q"
    unfolding urlparse_path[OF that(1)] urlparse_path[OF that(2)]
    by (simp add: sch nl c1 c0 Let_def)
qed

lemma local_path_query_tail:
  assumes "no_query u" "query_tail r"
  shows "local_path cfg (u @ r) = local_path cfg u"
proof (cases "urlparse u")
  case (Inl e)
  then have "\<not> (\<exists>p. urlparse (u @ r) = Inr p)"
    using urlparse_query_tail(1)[OF assms] by simp
  then obtain e' where "urlparse (u @ r) = Inl e'" by (cases "urlparse (u @ r)") auto
  with Inl urlparse_Inl[of u e] urlparse_Inl[of "u @ r" e'] show ?thesis
    by (simp add: local_path_def)
next
  case (Inr q)
  then obtain p where p: "urlparse (u @ r) = Inr p"
    using urlparse_query_tail(1)[OF assms] by blast
  from urlparse_query_tail(2)[OF assms p Inr] have "path p = path q" .
  with p Inr show ?thesis by (simp add: local_path_def)
qed

text \<open>
  Claim C9. The query and the fragment of a URL play no part in where it is saved: two
  URLs that differ in them only have the same local path, and saving the second after
  the first leaves the second content in that file, without any error.
\<close>

theorem query_and_fragment_discarded:
  assumes "no_query u" "query_tail r1" "query_tail r2"
    and "local_path cfg (u @ r1) = Inr p"
    and "\<forall>fs. \<not> os_refuses env fs p"
  shows "local_path cfg (u @ r2) = Inr p
       \<and> fst (bind (save_file cfg env (u @ r1) c1) (\<lambda>_. save_file cfg env (u @ r2) c2) s) = Inr ()
       \<and> files (snd (bind (save_file cfg env (u @ r1) c1)
                        (\<lambda>_. save_file cfg env (u @ r2) c2) s)) p = Some c2
       \<and> written (trace (snd (bind (save_file cfg env (u @ r1) c1)
                                 (\<lambda>_. save_file cfg env (u @ r2) c2) s)))
           = written (trace s) @ [p, p]"
proof -
  have "local_path cfg (u @ r1) = local_path cfg u" "local_path cfg (u @ r2) = local_path cfg u"
    using assms(1-3) by (simp_all add: local_path_query_tail)
  with assms(4) have l1: "local_path cfg (u @ r1) = Inr p" and l2: "local_path cfg (u @ r2) = Inr p"
    by simp_all
  have ok: "\<not> os_refuses env fs p" for fs using assms(5) by simp
  show ?thesis
    by (simp add: l2 bind_def save_file_written[OF l1 ok] save_file_written[OF l2 ok] written_append)
qed

theorem query_and_fragment_discarded_witness:
  "no_query ''http://helium:2368/post/'' \<and> query_tail ''?v=1'' \<and> query_tail ''#top''
   \<and> local_path main_cfg ''http://helium:2368/post/?v=1''
       = Inr ''/home/ghost-static-site-gen/public/post/index.html''
   \<and> local_path main_cfg ''http://helium:2368/post/#top''
       = Inr ''/home/ghost-static-site-gen/public/post/index.html''
   \<and> files (snd (bind (save_file main_cfg (status_site 200) ''http://helium:2368/post/?v=1'' (Text ''first''))
                    (\<lambda>_. save_file main_cfg (status_site 200) ''http://helium:2368/post/#top'' (Text ''second''))
                    initial))
        ''/home/ghost-static-site-gen/public/post/index.html''
       = Some (Text ''second'')"
proof -
  have n: "no_query ''http://helium:2368/post/''"
    by (simp add: no_query_def)
  have q1: "query_tail ''?v=1''" and q2: "query_tail ''#top''"
    by (simp_all add: query_tail_def)
  have l: "local_path main_cfg (''http://helium:2368/post/'' @ ''?v=1'')
             = Inr ''/home/ghost-static-site-gen/public/post/index.html''"
    by code_simp
  have w: "\<forall>fs. \<not> os_refuses (status_site 200) fs ''/home/ghost-static-site-gen/public/post/index.html''"
    by (simp add: status_site_def)
  from query_and_fragment_discarded [OF n q1 q2 l w, of "Text ''first''" "Text ''second''" initial] n q1 q2 l
  show ?thesis by simp
qed


section \<open>The global URL rewrite pass, verified\<close>

lemma contains_Nil: "contains c []"
  by (cases c) (simp_all add: startswith_def)

lemma replace_scan_absent: "\<not> contains c old \<Longrightarrow> replace_scan old new 0 c = c"
  by (induction c) auto

lemma replace_absent: "\<not> contains c old \<Longrightarrow> replace old new c = c"
  using contains_Nil[of c] by (auto simp: replace_def replace_scan_absent)

lemma tag_set_same: "tag_get t k = Some v \<Longrightarrow> tag_set k v t = t"
  by (simp add: tag_set_def tag_get_def update_triv)

lemma update_iframes_stable:
  assumes "list_all (\<lambda>t. \<not> contains (tag_get_default t ''src'' []) (source_url cfg)) tags"
  shows "update_iframes cfg tags = tags"
proof -
  have "(if tag_name t = ''iframe'' \<and> truthy (tag_get t ''src'')
         then tag_set ''src'' (update_url cfg (tag_get_default t ''src'' [])) t else t) = t"
    if "t \<in> set tags" for t
  proof (cases "tag_name t = ''iframe'' \<and> truthy (tag_get t ''src'')")
    case True
    then obtain v where v: "tag_get t ''src'' = Some v" by (auto simp: truthy_def split: option.splits)
    then have d: "tag_get_default t ''src'' [] = v" by (simp add: tag_get_default_def)
    have "\<not> contains v (source_url cfg)" using assms that d by (auto simp: list_all_iff)
    then have "update_url cfg v = v" by (simp add: update_url_def replace_absent)
    with v d True show ?thesis by (simp add: tag_set_same)
  next
    case False
    then show ?thesis by auto
  qed
  then show ?thesis unfolding update_iframes_def by (simp add: map_idI)
qed

lemma updated_content_stable:
  assumes "\<not> contains c (source_url cfg)"
    and "lower ext \<noteq> ''.html'' \<or> html_stable cfg env c"
  shows "updated_content cfg env ext c = c"
proof -
  have u: "update_all_urls cfg c = c" using assms(1) by (simp add: update_all_urls_def replace_absent)
  show ?thesis
  proof (cases "lower ext = ''.html''")
    case True
    with assms(2) have "html_stable cfg env c" by simp
    then show ?thesis
      unfolding updated_content_def Let_def u
      by (simp add: html_stable_def update_iframes_stable True)
  next
    case False
    then show ?thesis unfolding updated_content_def Let_def u by simp
  qed
qed

text \<open>What one step of the pass does.\<close>

lemma rewrite_file_skip:
  "lower (snd (splitext fname)) \<notin> set text_extensions \<Longrightarrow>
   rewrite_file cfg env (root, fname) s = (Inr (), s)"
  by (simp add: rewrite_file_def ret_def Let_def)

lemma read_file_state: "snd (read_file env p s) = s"
  by (simp add: read_file_def split: option.splits body.splits)

lemma read_file_eq: "read_file env p s = (file_text env s p, s)"
  using read_file_state[of env p s] by (simp add: file_text_def prod_eq_iff)

lemma rewrite_file_step:
  assumes "lower (snd (splitext fname)) \<in> set text_extensions"
  shows "rewrite_file cfg env (root, fname) s =
     (case file_text env s (path_join root fname) of
        Inl e \<Rightarrow> (Inl e, s)
      | Inr c \<Rightarrow>
          if updated_content cfg env (snd (splitext fname)) c = c then (Inr (), s)
          else if os_refuses env (files s) (path_join root fname) then (Inl OSError, s)
          else (Inr (), s\<lparr>files := (files s)(path_join root fname
                                    \<mapsto> Text (updated_content cfg env (snd (splitext fname)) c)),
                           trace := trace s @ [Saved (path_join root fname),
                                               Log Info (''Updated URLs in '' @ path_join root fname)]\<rparr>))"
  using assms
  by (simp add: rewrite_file_def Let_def bind_def read_file_eq write_file_def log_def emit_def ret_def
      split: sum.splits)

lemma file_text_Text: "files s p = Some (Text c) \<Longrightarrow> file_text env s p = Inr c"
  by (simp add: file_text_def read_file_def)

lemma file_text_cong: "files s p = files s' p \<Longrightarrow> file_text env s p = file_text env s' p"
  by (simp add: file_text_def read_file_def split: option.splits body.splits)

lemma for_each_Cons_run:
  "for_each f (x # xs) s =
     (case f x s of (Inl e, s1) \<Rightarrow> (Inl e, s1) | (Inr u, s1) \<Rightarrow> for_each f xs s1)"
  by (simp add: bind_def split: prod.splits sum.splits)

lemma for_each_Nil_run: "for_each f [] s = (Inr (), s)"
  by (simp add: ret_def)

lemma pass_Nil: "update_urls_in_all_files cfg env [] s = (Inr (), s)"
  by (simp add: update_urls_in_all_files_def ret_def)

lemma pass_Cons:
  "update_urls_in_all_files cfg env (e # walk) s =
     (case rewrite_file cfg env e s of
        (Inl x, s1) \<Rightarrow> (Inl x, s1)
      | (Inr u, s1) \<Rightarrow> update_urls_in_all_files cfg env walk s1)"
  unfolding update_urls_in_all_files_def by (rule for_each_Cons_run)

lemma written_step: "written [Saved p, Log l m] = [p]"
  by simp

text \<open>One step: the frame, the trace and the fname it may write.\<close>

lemma rewrite_file_cases:
  obtains
    (same) "snd (rewrite_file cfg env (root, fname) s) = s"
  | (wrote) c where
      "lower (snd (splitext fname)) \<in> set text_extensions"
      "file_text env s (path_join root fname) = Inr c"
      "updated_content cfg env (snd (splitext fname)) c \<noteq> c"
      "rewrite_file cfg env (root, fname) s =
         (Inr (), s\<lparr>files := (files s)(path_join root fname
                                    \<mapsto> Text (updated_content cfg env (snd (splitext fname)) c)),
                     trace := trace s @ [Saved (path_join root fname),
                                         Log Info (''Updated URLs in '' @ path_join root fname)]\<rparr>)"
proof (cases "lower (snd (splitext fname)) \<in> set text_extensions")
  case False
  then show ?thesis using same by (simp add: rewrite_file_skip)
next
  case True
  note st = rewrite_file_step[OF True, of cfg env root s]
  show ?thesis
  proof (cases "file_text env s (path_join root fname)")
    case (Inl e)
    then show ?thesis using same st by simp
  next
    case (Inr c)
    show ?thesis
    proof (cases "updated_content cfg env (snd (splitext fname)) c = c
                  \<or> os_refuses env (files s) (path_join root fname)")
      case True
      then show ?thesis using same st Inr by auto
    next
      case False
      then show ?thesis using wrote[of c] st Inr True by simp
    qed
  qed
qed

lemma rewrite_file_frame:
  "q \<noteq> path_join root fname \<Longrightarrow> files (snd (rewrite_file cfg env (root, fname) s)) q = files s q"
  by (cases rule: rewrite_file_cases[where cfg=cfg and env=env and root=root and fname=fname and s=s]) simp_all

lemma rewrite_file_trace:
  "\<exists>t. trace (snd (rewrite_file cfg env (root, fname) s)) = trace s @ t
       \<and> set (written t) \<subseteq> {path_join root fname}"
proof (cases rule: rewrite_file_cases[where cfg=cfg and env=env and root=root and fname=fname and s=s])
  case same
  then show ?thesis by simp
next
  case (wrote c)
  then show ?thesis by simp
qed

lemma pass_frame:
  "q \<notin> set (walk_paths walk) \<Longrightarrow>
   files (snd (update_urls_in_all_files cfg env walk s)) q = files s q"
proof (induction walk arbitrary: s)
  case Nil
  then show ?case by (simp add: pass_Nil)
next
  case (Cons e walk)
  obtain root fname where e: "e = (root, fname)" by (cases e)
  from Cons.prems have q: "q \<noteq> path_join root fname" "q \<notin> set (walk_paths walk)"
    by (simp_all add: walk_paths_def e)
  obtain r s1 where st: "rewrite_file cfg env (root, fname) s = (r, s1)" by fastforce
  have f1: "files s1 q = files s q" using rewrite_file_frame[OF q(1), of cfg env s] st by simp
  show ?case
  proof (cases r)
    case (Inl x)
    then show ?thesis using st f1 by (simp add: e pass_Cons)
  next
    case (Inr u)
    then show ?thesis
      using st f1 Cons.IH[OF q(2), of s1]
      by (simp add: e pass_Cons)
  qed
qed

lemma pass_trace:
  "\<exists>t. trace (snd (update_urls_in_all_files cfg env walk s)) = trace s @ t
       \<and> set (written t) \<subseteq> set (walk_paths walk)"
proof (induction walk arbitrary: s)
  case Nil
  then show ?case by (simp add: pass_Nil)
next
  case (Cons e walk)
  obtain root fname where e: "e = (root, fname)" by (cases e)
  obtain r s1 where st: "rewrite_file cfg env (root, fname) s = (r, s1)" by fastforce
  from rewrite_file_trace[of cfg env root fname s] st obtain t1
    where t1: "trace s1 = trace s @ t1" "set (written t1) \<subseteq> {path_join root fname}" by auto
  show ?case
  proof (cases r)
    case (Inl x)
    then show ?thesis using st t1
      by (auto simp: e pass_Cons walk_paths_def)
  next
    case (Inr u)
    from Cons.IH[of s1] obtain t2
      where t2: "trace (snd (update_urls_in_all_files cfg env walk s1)) = trace s1 @ t2"
        "set (written t2) \<subseteq> set (walk_paths walk)" by blast
    have "snd (update_urls_in_all_files cfg env (e # walk) s) = snd (update_urls_in_all_files cfg env walk s1)"
      using st Inr by (simp add: e pass_Cons)
    moreover have "set (written (t1 @ t2)) \<subseteq> set (walk_paths (e # walk))"
      using t1(2) t2(2) by (auto simp: written_append walk_paths_def e)
    ultimately show ?thesis using t1(1) t2(1) by (intro exI[of _ "t1 @ t2"]) simp
  qed
qed

lemma pass_writes_changed:
  "distinct (walk_paths walk) \<Longrightarrow>
   p \<in> set (written (drop (length (trace s))
                       (trace (snd (update_urls_in_all_files cfg env walk s))))) \<Longrightarrow>
   \<exists>c c'. file_text env s p = Inr c
         \<and> file_text env (snd (update_urls_in_all_files cfg env walk s)) p = Inr c'
         \<and> c' \<noteq> c"
proof (induction walk arbitrary: s)
  case Nil
  then show ?case by (simp add: pass_Nil)
next
  case (Cons e walk)
  obtain root fname where e: "e = (root, fname)" by (cases e)
  let ?pe = "path_join root fname"
  from Cons.prems(1) have d: "distinct (walk_paths walk)" "?pe \<notin> set (walk_paths walk)"
    by (simp_all add: walk_paths_def e)
  show ?case
  proof (cases rule: rewrite_file_cases[where cfg=cfg and env=env and root=root and fname=fname and s=s])
    case same
    obtain r where st: "rewrite_file cfg env (root, fname) s = (r, s)"
      using same by (metis prod.collapse)
    show ?thesis
    proof (cases r)
      case (Inl x)
      then have "snd (update_urls_in_all_files cfg env (e # walk) s) = s"
        using st by (simp add: e pass_Cons)
      with Cons.prems(2) show ?thesis by simp
    next
      case (Inr u)
      then have "update_urls_in_all_files cfg env (e # walk) s = update_urls_in_all_files cfg env walk s"
        using st by (simp add: e pass_Cons)
      with Cons.IH[OF d(1), of s] Cons.prems(2) show ?thesis by simp
    qed
  next
    case (wrote c)
    let ?c' = "updated_content cfg env (snd (splitext fname)) c"
    let ?s1 = "s\<lparr>files := (files s)(?pe \<mapsto> Text ?c'),
                  trace := trace s @ [Saved ?pe, Log Info (''Updated URLs in '' @ ?pe)]\<rparr>"
    let ?s' = "snd (update_urls_in_all_files cfg env walk ?s1)"
    have run: "update_urls_in_all_files cfg env (e # walk) s = update_urls_in_all_files cfg env walk ?s1"
      using wrote(4) by (simp add: e pass_Cons)
    from pass_trace[of cfg env walk ?s1] obtain t2
      where t2: "trace ?s' = trace ?s1 @ t2" "set (written t2) \<subseteq> set (walk_paths walk)" by blast
    have dr: "drop (length (trace s)) (trace ?s') = [Saved ?pe, Log Info (''Updated URLs in '' @ ?pe)] @ t2"
      using t2(1) by simp
    have dr1: "drop (length (trace ?s1)) (trace ?s') = t2"
      using t2(1) by simp
    from Cons.prems(2) have "p = ?pe \<or> p \<in> set (written t2)"
      unfolding run dr by (simp add: written_append)
    then show ?thesis
    proof
      assume p: "p = ?pe"
      have "files ?s' ?pe = files ?s1 ?pe" using pass_frame[OF d(2)] by simp
      then have "file_text env ?s' ?pe = Inr ?c'" by (simp add: file_text_Text)
      with wrote(2,3) p show ?thesis unfolding run by simp
    next
      assume p: "p \<in> set (written t2)"
      then have ne: "p \<noteq> ?pe" using t2(2) d(2) by auto
      from p have "p \<in> set (written (drop (length (trace ?s1)) (trace ?s')))" using dr1 by simp
      from Cons.IH[OF d(1) this] obtain c1 c2
        where c: "file_text env ?s1 p = Inr c1" "file_text env ?s' p = Inr c2" "c2 \<noteq> c1" by blast
      have "file_text env s p = file_text env ?s1 p"
        using ne by (intro file_text_cong) simp
      with c show ?thesis unfolding run by simp
    qed
  qed
qed

lemma rewrite_file_result:
  assumes "lower (snd (splitext fname)) \<in> set text_extensions"
    and "rewrite_file cfg env (root, fname) s = (Inr u, s1)"
    and "file_text env s (path_join root fname) = Inr c"
  shows "file_text env s1 (path_join root fname) = Inr (updated_content cfg env (snd (splitext fname)) c)"
proof (cases "updated_content cfg env (snd (splitext fname)) c = c")
  case True
  then have "s1 = s" using rewrite_file_step[OF assms(1), of cfg env root s] assms(2,3) by simp
  with True assms(3) show ?thesis by simp
next
  case False
  then have "files s1 (path_join root fname)
             = Some (Text (updated_content cfg env (snd (splitext fname)) c))"
    using rewrite_file_step[OF assms(1), of cfg env root s] assms(2,3)
    by (auto split: if_splits)
  then show ?thesis by (rule file_text_Text)
qed

lemma pass_rewrites:
  "distinct (walk_paths walk) \<Longrightarrow> (root, fname) \<in> set walk \<Longrightarrow>
   lower (snd (splitext fname)) \<in> set text_extensions \<Longrightarrow>
   update_urls_in_all_files cfg env walk s = (Inr u, s') \<Longrightarrow>
   file_text env s (path_join root fname) = Inr c \<Longrightarrow>
   file_text env s' (path_join root fname) = Inr (updated_content cfg env (snd (splitext fname)) c)"
proof (induction walk arbitrary: s)
  case Nil
  then show ?case by simp
next
  case (Cons e walk)
  obtain r1 f1 where e: "e = (r1, f1)" by (cases e)
  let ?p = "path_join root fname"
  from Cons.prems(1) have d: "distinct (walk_paths walk)" "path_join r1 f1 \<notin> set (walk_paths walk)"
    by (simp_all add: walk_paths_def e)
  from Cons.prems(4) obtain u1 s1
    where st: "rewrite_file cfg env (r1, f1) s = (Inr u1, s1)"
      and rest: "update_urls_in_all_files cfg env walk s1 = (Inr u, s')"
    by (auto simp: e pass_Cons split: prod.splits sum.splits)
  show ?case
  proof (cases "(root, fname) = (r1, f1)")
    case True
    then have here: "root = r1" "fname = f1" by simp_all
    from rewrite_file_result[OF Cons.prems(3) st[folded here] Cons.prems(5)]
    have "file_text env s1 ?p = Inr (updated_content cfg env (snd (splitext fname)) c)" .
    moreover have "files s' ?p = files s1 ?p"
      using pass_frame[of ?p walk cfg env s1] d(2) rest here by simp
    ultimately show ?thesis using file_text_cong[of s' ?p s1 env] by simp
  next
    case False
    with Cons.prems(2) have mem: "(root, fname) \<in> set walk" by (auto simp: e)
    then have "?p \<in> set (walk_paths walk)" by (force simp: walk_paths_def)
    then have "?p \<noteq> path_join r1 f1" using d(2) by auto
    then have "files s1 ?p = files s ?p" using rewrite_file_frame[of ?p r1 f1 cfg env s] st by simp
    then have "file_text env s1 ?p = Inr c" using Cons.prems(5) file_text_cong[of s1 ?p s env] by simp
    from Cons.IH[OF d(1) mem Cons.prems(3) rest this] show ?thesis .
  qed
qed

lemma rewrite_file_origin_free:
  assumes "origin_free cfg env s (root, fname)"
  shows "rewrite_file cfg env (root, fname) s = (Inr (), s)"
proof (cases "lower (snd (splitext fname)) \<in> set text_extensions")
  case False
  then show ?thesis by (rule rewrite_file_skip)
next
  case True
  with assms obtain c where c: "file_text env s (path_join root fname) = Inr c"
    "\<not> contains c (source_url cfg)"
    "lower (snd (splitext fname)) \<noteq> ''.html'' \<or> html_stable cfg env c"
    by (auto simp: origin_free_def split: sum.splits)
  from updated_content_stable[OF c(2,3)] c(1) show ?thesis
    by (simp add: rewrite_file_step[OF True])
qed

lemma pass_origin_free:
  "list_all (origin_free cfg env s) walk \<Longrightarrow> update_urls_in_all_files cfg env walk s = (Inr (), s)"
proof (induction walk)
  case Nil
  then show ?case by (simp add: pass_Nil)
next
  case (Cons e walk)
  obtain root fname where e: "e = (root, fname)" by (cases e)
  from Cons.prems have "origin_free cfg env s (root, fname)" "list_all (origin_free cfg env s) walk"
    by (simp_all add: e)
  then show ?case using Cons.IH by (simp add: e pass_Cons rewrite_file_origin_free)
qed

text \<open>
  Claim C7, as the code has it. Within one application of the rewrite pass a file is
  written only if its text changed. A second application changes nothing and writes
  nothing when no file it reads contains the source origin any more (and every HTML
  file is printed as it is parsed); the first application does not always leave the
  files so, see the counterexample.
\<close>

theorem rewrite_pass_fixed_point:
  "(distinct (walk_paths walk) \<longrightarrow>
      (\<forall>p \<in> set (written (drop (length (trace s))
                              (trace (snd (update_urls_in_all_files cfg env walk s))))).
         \<exists>c c'. file_text env s p = Inr c
               \<and> file_text env (snd (update_urls_in_all_files cfg env walk s)) p = Inr c'
               \<and> c' \<noteq> c))
   \<and> (list_all (origin_free cfg env s) walk \<longrightarrow>
        update_urls_in_all_files cfg env walk s = (Inr (), s))"
  using pass_writes_changed[of walk _ s cfg env] pass_origin_free[of cfg env s walk] by blast

lemma pass_single_write:
  assumes "lower (snd (splitext fname)) \<in> set text_extensions"
    and "file_text env s (path_join root fname) = Inr c"
    and "updated_content cfg env (snd (splitext fname)) c = c'" and "c' \<noteq> c"
    and "\<not> os_refuses env (files s) (path_join root fname)"
  shows "update_urls_in_all_files cfg env [(root, fname)] s =
     (Inr (), s\<lparr>files := (files s)(path_join root fname \<mapsto> Text c'),
                 trace := trace s @ [Saved (path_join root fname),
                                     Log Info (''Updated URLs in '' @ path_join root fname)]\<rparr>)"
  unfolding pass_Cons pass_Nil using assms(2-5)
  by (simp add: rewrite_file_step[OF assms(1)])

lemma settings_facts:
  "path_join ''/home/ghost-static-site-gen/public'' ''settings.json''
     = ''/home/ghost-static-site-gen/public/settings.json''"
  "lower (snd (splitext ''settings.json'')) = ''.json''"
  "replace ''http://helium:2368'' ''https://cadenkraft.com'' ''{url: http://helium:2368/}''
     = ''{url: https://cadenkraft.com/}''"
  "\<not> contains ''{url: https://cadenkraft.com/}'' ''http://helium:2368''"
  by code_simp+

lemma settings_disk_trace: "trace settings_disk = []"
  by (simp add: settings_disk_def initial_def)

lemma settings_first_pass:
  "update_urls_in_all_files main_cfg (status_site 200) settings_walk settings_disk =
     (Inr (), settings_disk
        \<lparr>files := (files settings_disk)(''/home/ghost-static-site-gen/public/settings.json''
                     \<mapsto> Text ''{url: https://cadenkraft.com/}''),
          trace := trace settings_disk
                   @ [Saved ''/home/ghost-static-site-gen/public/settings.json'',
                      Log Info ''Updated URLs in /home/ghost-static-site-gen/public/settings.json'']\<rparr>)"
proof -
  have ext: "lower (snd (splitext ''settings.json'')) \<in> set text_extensions"
    by (simp add: settings_facts text_extensions_def)
  have tx: "file_text (status_site 200) settings_disk
              (path_join ''/home/ghost-static-site-gen/public'' ''settings.json'')
               = Inr ''{url: http://helium:2368/}''"
    by (simp add: settings_facts(1) file_text_def read_file_def settings_disk_def initial_def
        status_site_def)
  have upd: "updated_content main_cfg (status_site 200) (snd (splitext ''settings.json''))
               ''{url: http://helium:2368/}'' = ''{url: https://cadenkraft.com/}''"
    using settings_facts(2)
    by (simp add: updated_content_def update_all_urls_def main_cfg_def settings_facts(3))
  have ne: "''{url: https://cadenkraft.com/}'' \<noteq> ''{url: http://helium:2368/}''"
    by simp
  have ok: "\<not> os_refuses (status_site 200) (files settings_disk)
              (path_join ''/home/ghost-static-site-gen/public'' ''settings.json'')"
    by (simp add: status_site_def)
  from pass_single_write[OF ext tx upd ne ok] show ?thesis
    by (simp add: settings_walk_def settings_facts(1))
qed

theorem rewrite_pass_fixed_point_witness:
  "distinct (walk_paths settings_walk)
   \<and> written (trace (snd (update_urls_in_all_files main_cfg (status_site 200) settings_walk settings_disk)))
       = [''/home/ghost-static-site-gen/public/settings.json'']
   \<and> file_text (status_site 200) settings_disk ''/home/ghost-static-site-gen/public/settings.json''
       = Inr ''{url: http://helium:2368/}''
   \<and> file_text (status_site 200)
        (snd (update_urls_in_all_files main_cfg (status_site 200) settings_walk settings_disk))
        ''/home/ghost-static-site-gen/public/settings.json''
       = Inr ''{url: https://cadenkraft.com/}''
   \<and> list_all (origin_free main_cfg (status_site 200)
                 (snd (update_urls_in_all_files main_cfg (status_site 200) settings_walk settings_disk)))
        settings_walk
   \<and> update_urls_in_all_files main_cfg (status_site 200) settings_walk
        (snd (update_urls_in_all_files main_cfg (status_site 200) settings_walk settings_disk))
       = (Inr (), snd (update_urls_in_all_files main_cfg (status_site 200) settings_walk settings_disk))"
proof -
  let ?s1 = "snd (update_urls_in_all_files main_cfg (status_site 200) settings_walk settings_disk)"
  have d: "distinct (walk_paths settings_walk)"
    by (simp add: walk_paths_def settings_walk_def)
  have w: "written (trace ?s1) = [''/home/ghost-static-site-gen/public/settings.json'']"
    by (simp add: settings_first_pass written_append settings_disk_trace)
  have t0: "file_text (status_site 200) settings_disk ''/home/ghost-static-site-gen/public/settings.json''
       = Inr ''{url: http://helium:2368/}''"
    by (simp add: file_text_def read_file_def settings_disk_def initial_def status_site_def)
  have t1: "file_text (status_site 200) ?s1 ''/home/ghost-static-site-gen/public/settings.json''
       = Inr ''{url: https://cadenkraft.com/}''"
    by (simp add: settings_first_pass file_text_def read_file_def)
  have o: "list_all (origin_free main_cfg (status_site 200) ?s1) settings_walk"
    using t1 settings_facts(4)
    by (simp add: settings_walk_def origin_free_def settings_facts(1,2) main_cfg_def)
  from rewrite_pass_fixed_point [of settings_walk ?s1 main_cfg "status_site 200"] o
  have "update_urls_in_all_files main_cfg (status_site 200) settings_walk ?s1 = (Inr (), ?s1)"
    by blast
  with d w t0 t1 o show ?thesis by simp
qed

lemma blog_facts:
  "path_join ''/srv/public'' ''site.css'' = ''/srv/public/site.css''"
  "lower (snd (splitext ''site.css'')) = ''.css''"
  "replace ''http://blog'' ''http://blog.example.com'' ''url(http://blog/bg.png)''
     = ''url(http://blog.example.com/bg.png)''"
  "replace ''http://blog'' ''http://blog.example.com'' ''url(http://blog.example.com/bg.png)''
     = ''url(http://blog.example.com.example.com/bg.png)''"
  by code_simp+

lemma blog_step:
  assumes "file_text (status_site 200) s ''/srv/public/site.css'' = Inr c"
    and "replace ''http://blog'' ''http://blog.example.com'' c = c'" and "c' \<noteq> c"
  shows "update_urls_in_all_files blog_cfg (status_site 200) blog_walk s =
     (Inr (), s\<lparr>files := (files s)(''/srv/public/site.css'' \<mapsto> Text c'),
                 trace := trace s @ [Saved ''/srv/public/site.css'',
                                     Log Info ''Updated URLs in /srv/public/site.css'']\<rparr>)"
proof -
  have ext: "lower (snd (splitext ''site.css'')) \<in> set text_extensions"
    by (simp add: blog_facts text_extensions_def)
  have tx: "file_text (status_site 200) s (path_join ''/srv/public'' ''site.css'') = Inr c"
    using assms(1) by (simp add: blog_facts(1))
  have upd: "updated_content blog_cfg (status_site 200) (snd (splitext ''site.css'')) c = c'"
    using blog_facts(2) assms(2)
    by (simp add: updated_content_def update_all_urls_def blog_cfg_def)
  have ok: "\<not> os_refuses (status_site 200) (files s) (path_join ''/srv/public'' ''site.css'')"
    by (simp add: status_site_def)
  from pass_single_write[OF ext tx upd assms(3) ok] show ?thesis
    by (simp add: blog_walk_def blog_facts(1))
qed

text \<open>
  The claim as stated fails when the target origin contains the source origin: the
  second application rewrites the file again.
\<close>

theorem rewrite_pass_fixed_point_counterexample:
  "file_text (status_site 200)
     (snd (update_urls_in_all_files blog_cfg (status_site 200) blog_walk blog_disk))
     ''/srv/public/site.css''
     = Inr ''url(http://blog.example.com/bg.png)''
   \<and> file_text (status_site 200)
     (snd (update_urls_in_all_files blog_cfg (status_site 200) blog_walk
        (snd (update_urls_in_all_files blog_cfg (status_site 200) blog_walk blog_disk))))
     ''/srv/public/site.css''
     = Inr ''url(http://blog.example.com.example.com/bg.png)''"
proof -
  have t0: "file_text (status_site 200) blog_disk ''/srv/public/site.css'' = Inr ''url(http://blog/bg.png)''"
    by (simp add: file_text_def read_file_def blog_disk_def initial_def status_site_def)
  have n1: "''url(http://blog.example.com/bg.png)'' \<noteq> ''url(http://blog/bg.png)''"
    and n2: "''url(http://blog.example.com.example.com/bg.png)'' \<noteq> ''url(http://blog.example.com/bg.png)''"
    by simp_all
  note p1 = blog_step[OF t0 blog_facts(3) n1]
  let ?s1 = "snd (update_urls_in_all_files blog_cfg (status_site 200) blog_walk blog_disk)"
  have t1: "file_text (status_site 200) ?s1 ''/srv/public/site.css'' = Inr ''url(http://blog.example.com/bg.png)''"
    by (simp add: p1 file_text_def read_file_def)
  note p2 = blog_step[OF t1 blog_facts(4) n2]
  have t2: "file_text (status_site 200)
     (snd (update_urls_in_all_files blog_cfg (status_site 200) blog_walk ?s1)) ''/srv/public/site.css''
     = Inr ''url(http://blog.example.com.example.com/bg.png)''"
    by (simp add: p2 file_text_def read_file_def)
  from t1 t2 show ?thesis by simp
qed

text \<open>
  Claim C10. The rewrite pass treats \<^verbatim>\<open>.json\<close> files as it treats the other text files:
  when the pass completes, every \<^verbatim>\<open>.json\<close> file of the walk holds its old text with the
  occurrences of the source origin replaced by the target origin, as \<^verbatim>\<open>str.replace\<close>
  does it.
\<close>

theorem json_files_rewritten:
  assumes "distinct (walk_paths walk)" and "(root, fname) \<in> set walk"
    and "lower (snd (splitext fname)) = ''.json''"
    and "update_urls_in_all_files cfg env walk s = (Inr (), s')"
    and "file_text env s (path_join root fname) = Inr c"
  shows "file_text env s' (path_join root fname)
           = Inr (replace (source_url cfg) (target_url cfg) c)"
proof -
  have ext: "lower (snd (splitext fname)) \<in> set text_extensions"
    using assms(3) by (simp add: text_extensions_def)
  have "updated_content cfg env (snd (splitext fname)) c = replace (source_url cfg) (target_url cfg) c"
    using assms(3) by (simp add: updated_content_def update_all_urls_def)
  with pass_rewrites[OF assms(1,2) ext assms(4,5)] show ?thesis by simp
qed

theorem json_files_rewritten_witness:
  "distinct (walk_paths settings_walk)
   \<and> (''/home/ghost-static-site-gen/public'', ''settings.json'') \<in> set settings_walk
   \<and> lower (snd (splitext ''settings.json'')) = ''.json''
   \<and> fst (update_urls_in_all_files main_cfg (status_site 200) settings_walk settings_disk) = Inr ()
   \<and> file_text (status_site 200) settings_disk ''/home/ghost-static-site-gen/public/settings.json''
       = Inr ''{url: http://helium:2368/}''
   \<and> file_text (status_site 200)
        (snd (update_urls_in_all_files main_cfg (status_site 200) settings_walk settings_disk))
        ''/home/ghost-static-site-gen/public/settings.json''
       = Inr ''{url: https://cadenkraft.com/}''"
proof -
  have d: "distinct (walk_paths settings_walk)"
    by (simp add: walk_paths_def settings_walk_def)
  have m: "(''/home/ghost-static-site-gen/public'', ''settings.json'') \<in> set settings_walk"
    by (simp add: settings_walk_def)
  have r: "update_urls_in_all_files main_cfg (status_site 200) settings_walk settings_disk
             = (Inr (), snd (update_urls_in_all_files main_cfg (status_site 200) settings_walk settings_disk))"
    by (simp add: settings_first_pass)
  have t0: "file_text (status_site 200) settings_disk
              (path_join ''/home/ghost-static-site-gen/public'' ''settings.json'')
       = Inr ''{url: http://helium:2368/}''"
    by (simp add: settings_facts(1) file_text_def read_file_def settings_disk_def initial_def status_site_def)
  from json_files_rewritten [OF d m settings_facts(2) r t0]
  have "file_text (status_site 200)
        (snd (update_urls_in_all_files main_cfg (status_site 200) settings_walk settings_disk))
        ''/home/ghost-static-site-gen/public/settings.json''
       = Inr ''{url: https://cadenkraft.com/}''"
    by (simp add: settings_facts(1,3) main_cfg_def)
  moreover have "fst (update_urls_in_all_files main_cfg (status_site 200) settings_walk settings_disk)
                   = Inr ()"
    by (simp add: settings_first_pass)
  moreover note d m settings_facts(2) t0 [unfolded settings_facts(1)]
  ultimately show ?thesis by simp
qed


section \<open>The format-augmentation pass, verified\<close>







section \<open>The crawl, verified\<close>

subsection \<open>What every statement of the crawl preserves\<close>

lemma preservesD: "preserves P m \<Longrightarrow> P s \<Longrightarrow> P (snd (m s))"
  by (simp add: preserves_def)

lemma preserves_ret: "preserves P (ret x)"
  by (simp add: preserves_def ret_def)

lemma preserves_raise: "preserves P (raise e)"
  by (simp add: preserves_def raise_def)

lemma preserves_lift: "preserves P (lift r)"
  by (simp add: preserves_def lift_def)

lemma bind_point:
  assumes "P (snd (m s))" and "\<And>x. preserves P (f x)"
  shows "P (snd (bind m f s))"
proof (cases "m s")
  case (Pair r s1)
  have "P (snd (f x s1))" if "P s1" for x
    using assms(2) that by (simp add: preserves_def)
  with Pair assms(1) show ?thesis
    by (cases r) (simp_all add: bind_def)
qed

lemma try_except_point:
  assumes "P (snd (m s))" and "preserves P h"
  shows "P (snd (try_except m c h s))"
proof (cases "m s")
  case (Pair r s1)
  have "P (snd (h s1))" if "P s1"
    using assms(2) that by (simp add: preserves_def)
  with Pair assms(1) show ?thesis
    by (cases r) (simp_all add: try_except_def)
qed

lemma preserves_bind:
  "preserves P m \<Longrightarrow> (\<And>x. preserves P (f x)) \<Longrightarrow> preserves P (bind m f)"
  using bind_point[of P m _ f] by (simp add: preserves_def)

lemma preserves_try_except:
  "preserves P m \<Longrightarrow> preserves P h \<Longrightarrow> preserves P (try_except m c h)"
  using try_except_point[of P m _ h c] by (simp add: preserves_def)

lemma preserves_for_each: "(\<And>x. preserves P (f x)) \<Longrightarrow> preserves P (for_each f xs)"
  by (induction xs) (auto intro: preserves_ret preserves_bind)

lemma preserves_for_each_update:
  "(\<And>x. preserves P (f x)) \<Longrightarrow> preserves P (for_each_update f xs)"
  by (induction xs) (auto intro!: preserves_ret preserves_bind)

lemma preserves_if:
  "preserves P a \<Longrightarrow> preserves P b \<Longrightarrow> preserves P (if c then a else b)"
  by simp

lemma preserves_case_option:
  "preserves P a \<Longrightarrow> (\<And>x. preserves P (b x)) \<Longrightarrow>
   preserves P (case v of None \<Rightarrow> a | Some x \<Rightarrow> b x)"
  by (cases v) simp_all

lemma preserves_emit: "stable P \<Longrightarrow> quiet ev \<Longrightarrow> preserves P (emit ev)"
  by (simp add: preserves_def emit_def stable_def)

lemma preserves_log: "stable P \<Longrightarrow> preserves P (log l msg)"
  unfolding log_def by (rule preserves_emit) (simp_all add: quiet_def)

lemma preserves_http_get:
  assumes "stable P" "st \<noteq> Dispatch"
  shows "preserves P (http_get env st url)"
proof -
  have "quiet (Fetch st url)" using assms(2) by (simp add: quiet_def)
  with assms(1) have "P s \<Longrightarrow> P (s\<lparr>trace := trace s @ [Fetch st url]\<rparr>)" for s
    by (simp add: stable_def)
  then show ?thesis
    by (auto simp: preserves_def http_get_def Let_def split: option.splits)
qed

lemma preserves_raise_for_status: "preserves P (raise_for_status r)"
  by (simp add: raise_for_status_def preserves_ret preserves_raise)

lemma preserves_add_file_url: "stable P \<Longrightarrow> preserves P (add_file_url url)"
  by (simp add: preserves_def add_file_url_def stable_def)

lemma preserves_write_file:
  assumes "stable P"
  shows "preserves P (write_file env p c)"
proof -
  have q: "quiet (Saved p)" by (simp add: quiet_def)
  have "P s \<Longrightarrow> P (s\<lparr>files := (files s)(p \<mapsto> c), trace := trace s @ [Saved p]\<rparr>)" for s
  proof -
    assume "P s"
    then have "P (s\<lparr>files := (files s)(p \<mapsto> c)\<rparr>)" using assms by (simp add: stable_def)
    then have "P ((s\<lparr>files := (files s)(p \<mapsto> c)\<rparr>)
                    \<lparr>trace := trace (s\<lparr>files := (files s)(p \<mapsto> c)\<rparr>) @ [Saved p]\<rparr>)"
      using assms q unfolding stable_def by blast
    then show ?thesis by simp
  qed
  then show ?thesis by (simp add: preserves_def write_file_def)
qed

lemma preserves_save_file: "stable P \<Longrightarrow> preserves P (save_file cfg env url c)"
  unfolding save_file_def
  by (intro preserves_bind preserves_lift preserves_write_file preserves_log)

lemma preserves_urljoin_m: "preserves P (urljoin_m env base ref)"
  by (simp add: urljoin_m_def preserves_ret preserves_raise split: option.splits)

lemmas preserves_intros =
  preserves_bind preserves_try_except preserves_for_each preserves_for_each_update
  preserves_if preserves_case_option preserves_ret preserves_raise preserves_lift
  preserves_log preserves_http_get preserves_raise_for_status preserves_add_file_url
  preserves_save_file preserves_urljoin_m

lemma preserves_scrape_image: "stable P \<Longrightarrow> preserves P (scrape_image cfg env what img_url)"
  unfolding scrape_image_def
  by (intro preserves_intros; simp)

lemma preserves_fetch_soup: "stable P \<Longrightarrow> preserves P (fetch_soup env url)"
  unfolding fetch_soup_def
  by (intro preserves_intros; simp)

lemma preserves_scrape_meta_images:
  "stable P \<Longrightarrow> preserves P (scrape_meta_images cfg env url)"
  unfolding scrape_meta_images_def
  by (intro preserves_intros preserves_fetch_soup preserves_scrape_image; simp)

lemma preserves_scrape_image_sizes:
  "stable P \<Longrightarrow> preserves P (scrape_image_sizes cfg env url)"
  unfolding scrape_image_sizes_def Let_def
  by (intro preserves_intros preserves_fetch_soup preserves_scrape_image; simp)

lemma preserves_resolve_and_scrape:
  "(\<And>u. preserves P (scrape u)) \<Longrightarrow> preserves P (resolve_and_scrape cfg env scrape base ref)"
  unfolding resolve_and_scrape_def
  by (intro preserves_intros; simp)

lemma preserves_scrape_iframe_content:
  assumes "stable P" "\<And>u. preserves P (scrape u)"
  shows "preserves P (scrape_iframe_content cfg env scrape iframe_src)"
  unfolding scrape_iframe_content_def Let_def
  by (intro preserves_intros preserves_resolve_and_scrape assms; simp)

lemma preserves_process_html:
  assumes "stable P" "\<And>u. preserves P (scrape u)"
  shows "preserves P (process_html cfg env scrape url html_content)"
  unfolding process_html_def Let_def
  by (intro preserves_intros preserves_resolve_and_scrape preserves_scrape_iframe_content assms; simp)


section \<open>The crawl\<close>

subsection \<open>One call of \<^verbatim>\<open>scrape_url\<close>\<close>

text \<open>
  What \<^verbatim>\<open>scrape_url\<close> does with a response keeps every stable property that the calls
  it makes to itself keep.
\<close>

lemma preserves_handle_response:
  assumes "stable P" "\<And>u. preserves P (scrape u)"
  shows "preserves P (handle_response cfg env scrape url response)"
  unfolding handle_response_def Let_def
  by (intro preserves_intros preserves_process_html preserves_scrape_image_sizes
        preserves_scrape_meta_images assms; simp)

text \<open>A URL that is in the visited set is left alone (lines 106 and 107).\<close>

lemma scrape_url_body_visited:
  "url \<in> visited_urls s \<Longrightarrow> scrape_url_body cfg env scrape url s = (Inr (), s)"
  by (simp add: scrape_url_body_def)

text \<open>A handler of \<^verbatim>\<open>except Exception\<close> that does not raise lets nothing through.\<close>

lemma try_except_all:
  assumes "\<And>s'. fst (h s') = Inr ()"
  shows "fst (try_except m is_exception h s) = Inr ()"
proof (cases "m s")
  case (Pair r s1)
  then show ?thesis using assms by (cases r) (simp_all add: try_except_def is_exception_def)
qed

text \<open>
  The rule for a URL that is new. If a stable property holds once the URL is in the visited
  set and its request is in the trace, and the inner calls keep it, then the call returns
  without an exception, in a state that has the property up to the delay, which is the last
  thing the call does.
\<close>

lemma scrape_url_body_new:
  assumes "stable P" "\<And>u. preserves P (scrape u)" "url \<notin> visited_urls s"
    and "P (s\<lparr>visited_urls := insert url (visited_urls s),
               trace := trace s @ [Fetch Dispatch url]\<rparr>)"
  shows "\<exists>s3. P s3 \<and> scrape_url_body cfg env scrape url s = (Inr (), s3\<lparr>trace := trace s3 @ [Sleep]\<rparr>)"
proof -
  let ?s1 = "s\<lparr>visited_urls := insert url (visited_urls s)\<rparr>"
  let ?s2 = "s\<lparr>visited_urls := insert url (visited_urls s), trace := trace s @ [Fetch Dispatch url]\<rparr>"
  let ?K = "\<lambda>response. bind (raise_for_status response)
                             (\<lambda>_. handle_response cfg env scrape url response)"
  let ?B = "bind (http_get env Dispatch url) ?K"
  let ?A = "try_except (try_except ?B is_request_exception (log Error (''Error fetching '' @ url)))
               is_exception (log Error (''Unexpected error scraping '' @ url))"
  have K: "preserves P (?K response)" for response
    by (intro preserves_bind preserves_raise_for_status preserves_handle_response assms(1,2))
  have B: "P (snd (?B ?s1))"
  proof (cases "requests_get env (trace s) url")
    case None
    then have "?B ?s1 = (Inl RequestException, ?s2)"
      by (simp add: bind_def http_get_def)
    with assms(4) show ?thesis by simp
  next
    case (Some r)
    then have "?B ?s1 = ?K r ?s2"
      by (simp add: bind_def http_get_def)
    with assms(4) K[of r] show ?thesis by (simp add: preserves_def)
  qed
  have A1: "P (snd (try_except ?B is_request_exception (log Error (''Error fetching '' @ url)) ?s1))"
    by (rule try_except_point[of P "?B" "?s1", OF B preserves_log[OF assms(1)]])
  have A: "P (snd (?A ?s1))"
    by (rule try_except_point[of P "try_except ?B is_request_exception (log Error (''Error fetching '' @ url))" "?s1",
          OF A1 preserves_log[OF assms(1)]])
  have "fst (?A ?s1) = Inr ()"
    by (rule try_except_all) (simp add: log_def emit_def)
  then obtain s3 where s3: "?A ?s1 = (Inr (), s3)"
    by (cases "?A ?s1") simp
  then have "bind ?A (\<lambda>_. sleep) ?s1 = (Inr (), s3\<lparr>trace := trace s3 @ [Sleep]\<rparr>)"
    by (simp add: bind_def sleep_def emit_def)
  moreover have "scrape_url_body cfg env scrape url s = bind ?A (\<lambda>_. sleep) ?s1"
    using assms(3) by (simp add: scrape_url_body_def)
  ultimately have "scrape_url_body cfg env scrape url s = (Inr (), s3\<lparr>trace := trace s3 @ [Sleep]\<rparr>)"
    by simp
  moreover have "P s3" using A s3 by simp
  ultimately show ?thesis by blast
qed

text \<open>With room for one more frame on the stack, \<^verbatim>\<open>scrape_url\<close> returns normally.\<close>

lemma scrape_url_never_raises: "fst (scrape_url cfg env (Suc d) url s) = Inr ()"
proof (cases "url \<in> visited_urls s")
  case True
  then show ?thesis by (simp add: scrape_url_body_visited)
next
  case False
  have st: "stable (\<lambda>s. True)" by (simp add: stable_def)
  have pr: "preserves (\<lambda>s. True) (scrape_url cfg env d u)" for u
    by (simp add: preserves_def)
  from scrape_url_body_new[of "\<lambda>s. True" "scrape_url cfg env d" url s cfg env, OF st pr False]
  obtain s3 where "scrape_url_body cfg env (scrape_url cfg env d) url s
                     = (Inr (), s3\<lparr>trace := trace s3 @ [Sleep]\<rparr>)"
    by auto
  then show ?thesis by simp
qed

subsection \<open>What the crawl keeps\<close>

lemma dispatched_append: "dispatched (xs @ ys) = dispatched xs @ dispatched ys"
  by (induction xs rule: dispatched.induct) auto

lemma sleeps_append: "sleeps (xs @ ys) = sleeps xs + sleeps ys"
  by (induction xs rule: sleeps.induct) auto

lemma fetched_append: "fetched (xs @ ys) = fetched xs @ fetched ys"
  by (induction xs rule: fetched.induct) auto

lemma quiet_dispatched:
  assumes "quiet ev"
  shows "dispatched [ev] = []"
proof (cases ev)
  case (Fetch st url)
  then show ?thesis using assms by (cases st) (simp_all add: quiet_def)
qed simp_all

lemma quiet_sleeps: "quiet ev \<Longrightarrow> sleeps [ev] = 0"
  by (cases ev) (auto simp: quiet_def)

lemma stable_visited_inv: "stable visited_inv"
  by (simp add: stable_def visited_inv_def dispatched_append quiet_dispatched)

lemma stable_pending: "stable (pending k)"
  by (simp add: stable_def pending_def dispatched_append sleeps_append quiet_dispatched quiet_sleeps)

lemma stable_prefix: "stable (\<lambda>s. prefix t (trace s))"
  by (simp add: stable_def prefix_prefix)

lemma stable_sleeps: "stable (\<lambda>s. sleeps (trace s) = k)"
  by (simp add: stable_def sleeps_append quiet_sleeps)

text \<open>Each of the three properties is kept by \<^verbatim>\<open>scrape_url\<close>, at every depth.\<close>

lemma preserves_scrape_url_visited_inv: "preserves visited_inv (scrape_url cfg env d url)"
proof (induction d arbitrary: url)
  case 0
  then show ?case by (simp add: preserves_raise)
next
  case (Suc d)
  show ?case
    unfolding preserves_def
  proof (intro allI impI)
    fix s assume inv: "visited_inv s"
    show "visited_inv (snd (scrape_url cfg env (Suc d) url s))"
    proof (cases "url \<in> visited_urls s")
      case True
      then show ?thesis using inv by (simp add: scrape_url_body_visited)
    next
      case False
      have enter: "visited_inv (s\<lparr>visited_urls := insert url (visited_urls s),
                                  trace := trace s @ [Fetch Dispatch url]\<rparr>)"
        using inv False by (auto simp: visited_inv_def dispatched_append)
      from scrape_url_body_new[of visited_inv "scrape_url cfg env d" url s cfg env,
          OF stable_visited_inv Suc.IH False enter]
      obtain s3 where s3: "visited_inv s3"
        "scrape_url_body cfg env (scrape_url cfg env d) url s = (Inr (), s3\<lparr>trace := trace s3 @ [Sleep]\<rparr>)"
        by blast
      then show ?thesis by (simp add: visited_inv_def dispatched_append)
    qed
  qed
qed

lemma preserves_scrape_url_pending: "preserves (pending k) (scrape_url cfg env d url)"
proof (induction d arbitrary: url k)
  case 0
  then show ?case by (simp add: preserves_raise)
next
  case (Suc d)
  show ?case
    unfolding preserves_def
  proof (intro allI impI)
    fix s assume inv: "pending k s"
    show "pending k (snd (scrape_url cfg env (Suc d) url s))"
    proof (cases "url \<in> visited_urls s")
      case True
      then show ?thesis using inv by (simp add: scrape_url_body_visited)
    next
      case False
      have enter: "pending (Suc k) (s\<lparr>visited_urls := insert url (visited_urls s),
                                  trace := trace s @ [Fetch Dispatch url]\<rparr>)"
        using inv by (simp add: pending_def dispatched_append sleeps_append)
      from scrape_url_body_new[of "pending (Suc k)" "scrape_url cfg env d" url s cfg env,
          OF stable_pending Suc.IH False enter]
      obtain s3 where s3: "pending (Suc k) s3"
        "scrape_url_body cfg env (scrape_url cfg env d) url s = (Inr (), s3\<lparr>trace := trace s3 @ [Sleep]\<rparr>)"
        by blast
      then show ?thesis by (simp add: pending_def dispatched_append sleeps_append)
    qed
  qed
qed

lemma preserves_scrape_url_prefix: "preserves (\<lambda>s. prefix t (trace s)) (scrape_url cfg env d url)"
proof (induction d arbitrary: url)
  case 0
  then show ?case by (simp add: preserves_raise)
next
  case (Suc d)
  show ?case
    unfolding preserves_def
  proof (intro allI impI)
    fix s :: state assume inv: "prefix t (trace s)"
    show "prefix t (trace (snd (scrape_url cfg env (Suc d) url s)))"
    proof (cases "url \<in> visited_urls s")
      case True
      then show ?thesis using inv by (simp add: scrape_url_body_visited)
    next
      case False
      have enter: "prefix t (trace (s\<lparr>visited_urls := insert url (visited_urls s),
                                  trace := trace s @ [Fetch Dispatch url]\<rparr>))"
        using inv by (simp add: prefix_prefix)
      from scrape_url_body_new[of "\<lambda>s. prefix t (trace s)" "scrape_url cfg env d" url s cfg env,
          OF stable_prefix Suc.IH False enter]
      obtain s3 where s3: "prefix t (trace s3)"
        "scrape_url_body cfg env (scrape_url cfg env d) url s = (Inr (), s3\<lparr>trace := trace s3 @ [Sleep]\<rparr>)"
        by blast
      then show ?thesis by (simp add: prefix_prefix)
    qed
  qed
qed

lemma preserves_scrape_site:
  assumes "\<And>url. preserves P (scrape_url cfg env d url)"
  shows "preserves P (scrape_site cfg env d)"
  unfolding scrape_site_def scrape_root_files_def
  by (intro preserves_intros assms)

text \<open>The trace of a call for a new URL starts with its request and ends with the delay.\<close>

lemma scrape_url_delay:
  assumes "url \<notin> visited_urls s"
  shows "\<exists>mid. trace (snd (scrape_url cfg env (Suc d) url s))
                 = trace s @ [Fetch Dispatch url] @ mid @ [Sleep]"
proof -
  let ?t = "trace s @ [Fetch Dispatch url]"
  have enter: "prefix ?t (trace (s\<lparr>visited_urls := insert url (visited_urls s),
                                  trace := trace s @ [Fetch Dispatch url]\<rparr>))"
    by simp
  from scrape_url_body_new[of "\<lambda>s. prefix ?t (trace s)" "scrape_url cfg env d" url s cfg env,
      OF stable_prefix preserves_scrape_url_prefix assms enter]
  obtain s3 where s3: "prefix ?t (trace s3)"
    "scrape_url_body cfg env (scrape_url cfg env d) url s = (Inr (), s3\<lparr>trace := trace s3 @ [Sleep]\<rparr>)"
    by blast
  from s3(1) obtain mid where "trace s3 = ?t @ mid" by (auto simp: prefix_def)
  with s3(2) show ?thesis by simp
qed

subsection \<open>Two runs on a page with one image\<close>

text \<open>The definitions a run unfolds.\<close>

lemmas run_defs =
  scrape_url_body_def handle_response_def process_html_def scrape_image_sizes_def
  scrape_meta_images_def fetch_soup_def scrape_image_def save_file_def
  bind_def ret_def raise_def lift_def try_except_def emit_def log_def sleep_def
  http_get_def raise_for_status_def is_request_exception_def is_exception_def add_file_url_def
  write_file_def tag_get_def tag_get_default_def str_or_def py_or_def truthy_def Let_def

text \<open>The facts about strings that the runs below need, each by evaluation.\<close>

lemma helium_facts:
  "is_same_domain main_cfg ''http://helium:2368/a-400.jpg'' = Inr True"
  "is_same_domain main_cfg ''/a-400.jpg'' = Inr False"
  "local_path main_cfg ''http://helium:2368'' = Inr ''/home/ghost-static-site-gen/public/index.html''"
  "local_path main_cfg ''http://helium:2368/a-400.jpg''
     = Inr ''/home/ghost-static-site-gen/public/a-400.jpg''"
  "local_path main_cfg ''http://helium:2368/missing.html''
     = Inr ''/home/ghost-static-site-gen/public/missing.html''"
  "contains (lower ''text/html; charset=utf-8'') ''text/html''"
  "srcset_urls ''http://helium:2368/a-400.jpg 400w'' = [''http://helium:2368/a-400.jpg'']"
  "srcset_urls ''/a-400.jpg 400w'' = [''/a-400.jpg'']"
  "lower ''text/plain'' = ''text/plain''"
  "\<not> contains ''text/plain'' ''text/html''"
  "\<not> contains ''text/plain'' ''image''"
  "\<not> list_ex (contains ''text/plain'') [''text/css'', ''javascript'', ''application'']"
  by code_simp+

text \<open>
  The run on the page whose image candidate is an absolute URL of the site: the page is
  requested by \<^verbatim>\<open>scrape_url\<close>, then again by \<^verbatim>\<open>scrape_image_sizes\<close>, which also requests
  the image, and a third time by \<^verbatim>\<open>scrape_meta_images\<close>.
\<close>

lemma absolute_candidate_run:
  "trace (snd (scrape_url main_cfg (one_image_site ''http://helium:2368/a-400.jpg 400w'') (Suc 0)
                 ''http://helium:2368'' initial))
   = [Fetch Dispatch ''http://helium:2368'',
      Saved ''/home/ghost-static-site-gen/public/index.html'',
      Log Info ''Saved: /home/ghost-static-site-gen/public/index.html'',
      Saved ''/home/ghost-static-site-gen/public/index.html'',
      Log Info ''Saved: /home/ghost-static-site-gen/public/index.html'',
      Fetch Refetch ''http://helium:2368'',
      Fetch Eager ''http://helium:2368/a-400.jpg'',
      Saved ''/home/ghost-static-site-gen/public/a-400.jpg'',
      Log Info ''Saved: /home/ghost-static-site-gen/public/a-400.jpg'',
      Log Info ''Scraped image: http://helium:2368/a-400.jpg'',
      Fetch Refetch ''http://helium:2368'', Sleep]"
  "visited_urls (snd (scrape_url main_cfg (one_image_site ''http://helium:2368/a-400.jpg 400w'') (Suc 0)
                 ''http://helium:2368'' initial))
   = {''http://helium:2368''}"
  by (simp_all add: run_defs one_image_site_def html_response_def jpeg_response_def initial_def
      helium_facts)

text \<open>The run on the same page with the candidate written relative to the site's root.\<close>

lemma relative_candidate_run:
  "trace (snd (scrape_url main_cfg (one_image_site ''/a-400.jpg 400w'') (Suc 0)
                 ''http://helium:2368'' initial))
   = [Fetch Dispatch ''http://helium:2368'',
      Saved ''/home/ghost-static-site-gen/public/index.html'',
      Log Info ''Saved: /home/ghost-static-site-gen/public/index.html'',
      Saved ''/home/ghost-static-site-gen/public/index.html'',
      Log Info ''Saved: /home/ghost-static-site-gen/public/index.html'',
      Fetch Refetch ''http://helium:2368'',
      Fetch Refetch ''http://helium:2368'', Sleep]"
  by (simp add: run_defs one_image_site_def html_response_def jpeg_response_def initial_def
      helium_facts)

subsection \<open>The claims about the crawl\<close>

text \<open>
  Claim C1, as the code has it. Over a whole run, whatever the site answers, no URL is
  requested twice by \<^verbatim>\<open>scrape_url\<close>; the URLs it requests are exactly the visited ones,
  so the size of the visited set is the number of requests that \<^verbatim>\<open>scrape_url\<close> issues.
\<close>

theorem scrape_url_fetches_once:
  "distinct (dispatched (trace (snd (scrape_site cfg env d initial))))
   \<and> set (dispatched (trace (snd (scrape_site cfg env d initial))))
       = visited_urls (snd (scrape_site cfg env d initial))
   \<and> card (visited_urls (snd (scrape_site cfg env d initial)))
       = length (dispatched (trace (snd (scrape_site cfg env d initial))))"
proof -
  have "visited_inv initial" by (simp add: visited_inv_def initial_def)
  moreover have "preserves visited_inv (scrape_site cfg env d)"
    by (rule preserves_scrape_site) (rule preserves_scrape_url_visited_inv)
  ultimately have "visited_inv (snd (scrape_site cfg env d initial))"
    by (simp add: preserves_def)
  then show ?thesis
    unfolding visited_inv_def using distinct_card by fastforce
qed

text \<open>
  The claim as stated counts every request. On the page with one image the page itself is
  requested three times, and the four requests of the run leave one URL in the visited set.
\<close>

theorem scrape_url_fetches_once_counterexample:
  "fetched (trace (snd (scrape_url main_cfg (one_image_site ''http://helium:2368/a-400.jpg 400w'')
                          (Suc 0) ''http://helium:2368'' initial)))
     = [''http://helium:2368'', ''http://helium:2368'', ''http://helium:2368/a-400.jpg'',
        ''http://helium:2368'']
   \<and> visited_urls (snd (scrape_url main_cfg (one_image_site ''http://helium:2368/a-400.jpg 400w'')
                          (Suc 0) ''http://helium:2368'' initial))
     = {''http://helium:2368''}"
  unfolding absolute_candidate_run by simp

text \<open>
  Claim C2 at the page \<^verbatim>\<open>http://helium:2368\<close> with \<^verbatim>\<open><img srcset="/a-400.jpg 400w">\<close>.
  The candidate resolves against the page to a URL of the site, yet \<^verbatim>\<open>scrape_image_sizes\<close>
  tests the candidate as it is written, finds it out of scope, and the image is never
  requested: the three requests of the run are all for the page.
\<close>

theorem relative_candidate_never_fetched:
  "urljoin (one_image_site ''/a-400.jpg 400w'') ''http://helium:2368'' ''/a-400.jpg''
     = Some ''http://helium:2368/a-400.jpg''
   \<and> is_same_domain main_cfg ''/a-400.jpg'' = Inr False
   \<and> is_same_domain main_cfg ''http://helium:2368/a-400.jpg'' = Inr True
   \<and> fetched (trace (snd (scrape_url main_cfg (one_image_site ''/a-400.jpg 400w'') (Suc 0)
                            ''http://helium:2368'' initial)))
      = [''http://helium:2368'', ''http://helium:2368'', ''http://helium:2368'']"
  unfolding relative_candidate_run helium_facts(1,2) by (simp add: one_image_site_def startswith_def)

text \<open>
  Claim C6, as the code has it. A call of \<^verbatim>\<open>scrape_url\<close> never raises, so a loop over
  URLs goes on with the next one. For a new URL whose request fails in transport or is
  answered with a status from 400 to 599, the call does exactly this: it puts the URL in the
  visited set, issues the request, logs the error and sleeps.
\<close>

theorem failed_fetch_is_logged:
  "fst (scrape_url cfg env (Suc d) url s) = Inr ()
   \<and> for_each (scrape_url cfg env (Suc d)) (url # urls) s
       = for_each (scrape_url cfg env (Suc d)) urls (snd (scrape_url cfg env (Suc d) url s))
   \<and> (url \<notin> visited_urls s
        \<and> (requests_get env (trace s) url = None
           \<or> (\<exists>r. requests_get env (trace s) url = Some r
                  \<and> 400 \<le> status_code r \<and> status_code r < 600))
        \<longrightarrow> scrape_url cfg env (Suc d) url s
              = (Inr (), s\<lparr>visited_urls := insert url (visited_urls s),
                            trace := trace s @ [Fetch Dispatch url,
                                                Log Error (''Error fetching '' @ url),
                                                Sleep]\<rparr>))"
proof (intro conjI impI)
  show r: "fst (scrape_url cfg env (Suc d) url s) = Inr ()"
    by (rule scrape_url_never_raises)
  then obtain s' where "scrape_url cfg env (Suc d) url s = (Inr (), s')"
    by (cases "scrape_url cfg env (Suc d) url s") simp
  then show "for_each (scrape_url cfg env (Suc d)) (url # urls) s
       = for_each (scrape_url cfg env (Suc d)) urls (snd (scrape_url cfg env (Suc d) url s))"
    by (simp add: bind_def)
next
  assume a: "url \<notin> visited_urls s
        \<and> (requests_get env (trace s) url = None
           \<or> (\<exists>r. requests_get env (trace s) url = Some r
                  \<and> 400 \<le> status_code r \<and> status_code r < 600))"
  then show "scrape_url cfg env (Suc d) url s
              = (Inr (), s\<lparr>visited_urls := insert url (visited_urls s),
                            trace := trace s @ [Fetch Dispatch url,
                                                Log Error (''Error fetching '' @ url),
                                                Sleep]\<rparr>)"
    by (auto simp: scrape_url_body_def bind_def try_except_def http_get_def raise_for_status_def
        raise_def is_request_exception_def log_def emit_def sleep_def)
qed

text \<open>The site that answers 404 to everything, at \<^verbatim>\<open>/missing.html\<close>.\<close>

theorem failed_fetch_is_logged_witness:
  "''http://helium:2368/missing.html'' \<notin> visited_urls initial
   \<and> requests_get (status_site 404) (trace initial) ''http://helium:2368/missing.html''
       = Some \<lparr>status_code = 404, content_type = ''text/plain'',
                resp_text = ''moved'', resp_content = ''moved''\<rparr>
   \<and> scrape_url main_cfg (status_site 404) (Suc 0) ''http://helium:2368/missing.html'' initial
       = (Inr (), initial\<lparr>visited_urls := {''http://helium:2368/missing.html''},
                          trace := [Fetch Dispatch ''http://helium:2368/missing.html'',
                                    Log Error ''Error fetching http://helium:2368/missing.html'',
                                    Sleep]\<rparr>)"
proof -
  have v: "''http://helium:2368/missing.html'' \<notin> visited_urls initial"
    by (simp add: initial_def)
  have r: "requests_get (status_site 404) (trace initial) ''http://helium:2368/missing.html''
       = Some \<lparr>status_code = 404, content_type = ''text/plain'',
                resp_text = ''moved'', resp_content = ''moved''\<rparr>"
    by (simp add: status_site_def)
  have i: "visited_urls initial = {}" "trace initial = []" by (simp_all add: initial_def)
  from failed_fetch_is_logged [of main_cfg "status_site 404" 0 "''http://helium:2368/missing.html''" initial]
    v r
  have "scrape_url main_cfg (status_site 404) (Suc 0) ''http://helium:2368/missing.html'' initial
       = (Inr (), initial\<lparr>visited_urls := {''http://helium:2368/missing.html''},
                          trace := [Fetch Dispatch ''http://helium:2368/missing.html'',
                                    Log Error ''Error fetching http://helium:2368/missing.html'',
                                    Sleep]\<rparr>)"
    by (simp add: i)
  with v r show ?thesis by simp
qed

text \<open>
  A status outside 200 to 299 is not always a failure for \<^verbatim>\<open>raise_for_status\<close>: the
  answer 304 is saved like any other file and no error is logged.
\<close>

theorem failed_fetch_is_logged_counterexample:
  "requests_get (status_site 304) (trace initial) ''http://helium:2368/missing.html''
       = Some \<lparr>status_code = 304, content_type = ''text/plain'',
                resp_text = ''moved'', resp_content = ''moved''\<rparr>
   \<and> trace (snd (scrape_url main_cfg (status_site 304) (Suc 0) ''http://helium:2368/missing.html''
                   initial))
     = [Fetch Dispatch ''http://helium:2368/missing.html'',
        Log Info ''Saving file with content-type text/plain: http://helium:2368/missing.html'',
        Saved ''/home/ghost-static-site-gen/public/missing.html'',
        Log Info ''Saved: /home/ghost-static-site-gen/public/missing.html'',
        Sleep]
   \<and> errors_logged (trace (snd (scrape_url main_cfg (status_site 304) (Suc 0)
                                   ''http://helium:2368/missing.html'' initial))) = []"
  by (simp add: run_defs status_site_def initial_def helium_facts startswith_def)

text \<open>
  Claim C8, as the code has it. Over a whole run there are as many delays as requests of
  \<^verbatim>\<open>scrape_url\<close>; a call of \<^verbatim>\<open>scrape_url\<close> either leaves the trace as it is or adds
  to it its request first and the delay last; \<^verbatim>\<open>scrape_image_sizes\<close> and
  \<^verbatim>\<open>scrape_meta_images\<close> add no delay, whatever they request.
\<close>

theorem delay_after_scrape_url_request:
  "sleeps (trace (snd (scrape_site cfg env d initial)))
     = length (dispatched (trace (snd (scrape_site cfg env d initial))))
   \<and> (trace (snd (scrape_url cfg env (Suc d) url s)) = trace s
      \<or> (\<exists>mid. trace (snd (scrape_url cfg env (Suc d) url s))
                  = trace s @ [Fetch Dispatch url] @ mid @ [Sleep]))
   \<and> sleeps (trace (snd (scrape_image_sizes cfg env url s))) = sleeps (trace s)
   \<and> sleeps (trace (snd (scrape_meta_images cfg env url s))) = sleeps (trace s)"
proof (intro conjI)
  have "pending 0 initial" by (simp add: pending_def initial_def)
  moreover have "preserves (pending 0) (scrape_site cfg env d)"
    by (rule preserves_scrape_site) (rule preserves_scrape_url_pending)
  ultimately have "pending 0 (snd (scrape_site cfg env d initial))"
    by (simp add: preserves_def)
  then show "sleeps (trace (snd (scrape_site cfg env d initial)))
     = length (dispatched (trace (snd (scrape_site cfg env d initial))))"
    by (simp add: pending_def)
next
  show "trace (snd (scrape_url cfg env (Suc d) url s)) = trace s
      \<or> (\<exists>mid. trace (snd (scrape_url cfg env (Suc d) url s))
                  = trace s @ [Fetch Dispatch url] @ mid @ [Sleep])"
  proof (cases "url \<in> visited_urls s")
    case True
    then show ?thesis by (simp add: scrape_url_body_visited)
  next
    case False
    from scrape_url_delay[OF this] show ?thesis by blast
  qed
next
  show "sleeps (trace (snd (scrape_image_sizes cfg env url s))) = sleeps (trace s)"
    using preserves_scrape_image_sizes[OF stable_sleeps, of "sleeps (trace s)" cfg env url]
    by (simp add: preserves_def)
next
  show "sleeps (trace (snd (scrape_meta_images cfg env url s))) = sleeps (trace s)"
    using preserves_scrape_meta_images[OF stable_sleeps, of "sleeps (trace s)" cfg env url]
    by (simp add: preserves_def)
qed

text \<open>
  The claim as stated puts a delay after every request. On the page with one image three
  requests follow the first without a delay between them; the only delay is the last event.
\<close>

theorem delay_after_scrape_url_request_counterexample:
  "requests_and_delays
     (trace (snd (scrape_url main_cfg (one_image_site ''http://helium:2368/a-400.jpg 400w'')
                    (Suc 0) ''http://helium:2368'' initial)))
   = [Fetch Dispatch ''http://helium:2368'', Fetch Refetch ''http://helium:2368'',
      Fetch Eager ''http://helium:2368/a-400.jpg'', Fetch Refetch ''http://helium:2368'', Sleep]"
  unfolding absolute_candidate_run by simp

end
